theory Spec2Isabelle
  imports Main "HOL-Library.Log_Nat"
begin

section \<open>JavaScript values and the services of the browser\<close>

text \<open>
  The tracker keeps its progress in a JavaScript \<open>Set\<close>. The code adds strings to it
  (the penguin ids), but \<open>loadProgress\<close> fills it with whatever \<open>JSON.parse\<close> returns,
  so an element is a string or some other value (\<open>null\<close>, a number, a boolean, an array,
  an object). The other values are kept opaque, in a type parameter whose equality is the
  one a \<open>Set\<close> uses (SameValueZero: two objects are equal only when they are one object).
\<close>

datatype 'o jsval = JString string | JOther 'o

datatype js_error = TypeError | SyntaxError | SecurityError | QuotaExceededError

text \<open>
  \<open>JSON.parse\<close>, \<open>JSON.stringify\<close> and the iteration protocol are not code of the
  repository: they are parameters of the model.
  \<^item> \<open>JSON_parse text\<close> is \<open>None\<close> when \<open>JSON.parse\<close> throws its SyntaxError;
  \<^item> \<open>JSON_stringify vs\<close> is the text of the array \<open>vs\<close>;
  \<^item> \<open>iterable_elements v\<close> are the values that \<open>new Set(v)\<close> reads from a value \<open>v\<close>
    that is not a string: none for \<open>null\<close>, the elements of an array, and \<open>None\<close> when
    \<open>v\<close> is not iterable and the constructor throws a TypeError.
\<close>

record 'o platform =
  JSON_parse :: "string \<Rightarrow> 'o jsval option"
  JSON_stringify :: "'o jsval list \<Rightarrow> string"
  iterable_elements :: "'o \<Rightarrow> 'o jsval list option"

subsection \<open>Set\<close>

text \<open>A \<open>Set\<close> is the list of its elements in insertion order, without repetition.\<close>

definition Set_add :: "'a \<Rightarrow> 'a list \<Rightarrow> 'a list" where
  "Set_add v s = (if v \<in> set s then s else s @ [v])"

definition Set_of :: "'a list \<Rightarrow> 'a list" where
  "Set_of vs = foldl (\<lambda>s v. Set_add v s) [] vs"

text \<open>
  \<open>new Set(v)\<close>: a string is iterated character by character, any other value as the
  platform says.
\<close>

definition new_Set :: "'o platform \<Rightarrow> 'o jsval \<Rightarrow> js_error + 'o jsval list" where
  "new_Set P v =
     (case v of
        JString s \<Rightarrow> Inr (Set_of (map (\<lambda>c. JString [c]) s))
      | JOther x \<Rightarrow>
          (case iterable_elements P x of
             None \<Rightarrow> Inl TypeError
           | Some vs \<Rightarrow> Inr (Set_of vs)))"

subsection \<open>localStorage\<close>

text \<open>
  The storage of the origin: it may be inaccessible (disabled by the user or by policy:
  every access throws a SecurityError), and a write may exceed the quota. \<open>quota\<close> is the
  longest value the store accepts.
\<close>

record storage =
  accessible :: bool
  quota :: nat
  items :: "string \<Rightarrow> string option"

definition getItem :: "storage \<Rightarrow> string \<Rightarrow> js_error + string option" where
  "getItem st k = (if accessible st then Inr (items st k) else Inl SecurityError)"

definition setItem :: "storage \<Rightarrow> string \<Rightarrow> string \<Rightarrow> js_error + storage" where
  "setItem st k v =
     (if \<not> accessible st then Inl SecurityError
      else if quota st < length v then Inl QuotaExceededError
      else Inr (st\<lparr>items := (items st)(k \<mapsto> v)\<rparr>))"

definition removeItem :: "storage \<Rightarrow> string \<Rightarrow> js_error + storage" where
  "removeItem st k =
     (if accessible st then Inr (st\<lparr>items := (items st)(k := None)\<rparr>) else Inl SecurityError)"

subsection \<open>Numbers\<close>

text \<open>
  \<open>yesScale\<close> is a JavaScript Number, an IEEE 754 double, and \<open>0.3\<close> is not a binary
  fraction: the sums are rounded. Every double in the interval from \<open>1/4\<close> up to
  \<open>2^1024\<close> is a multiple of \<open>2^-54\<close>, so such a double is kept as that multiple:
  \<open>Finite n\<close> is the number \<open>n / 2^54\<close>. \<open>round_to_double n\<close> is the double nearest to
  \<open>n / 2^54\<close>: \<open>floorlog 2 n\<close> is the number of bits of \<open>n\<close>, the significand keeps the
  first 53 of them, rounded to nearest with ties to even, and the result is \<open>Infinity\<close>
  from \<open>2^1024\<close> on.
\<close>

datatype double = Finite nat | Infinity

definition significand :: "nat \<Rightarrow> nat" where
  "significand n =
     (let k = floorlog 2 n - 53;
          q = n div 2 ^ k;
          r = n mod 2 ^ k
      in if 2 ^ k < 2 * r \<or> (2 * r = 2 ^ k \<and> odd q) then q + 1 else q)"

definition overflow_threshold :: nat where
  "overflow_threshold = 2 ^ 1078"

definition round_to_double :: "nat \<Rightarrow> double" where
  "round_to_double n =
     (let v = significand n * 2 ^ (floorlog 2 n - 53)
      in if overflow_threshold \<le> v then Infinity else Finite v)"

fun double_add :: "double \<Rightarrow> double \<Rightarrow> double" where
  "double_add (Finite a) (Finite b) = round_to_double (a + b)"
| "double_add _ _ = Infinity"

fun double_less :: "double \<Rightarrow> double \<Rightarrow> bool" where
  "double_less (Finite a) (Finite b) = (a < b)"
| "double_less (Finite a) Infinity = True"
| "double_less Infinity _ = False"

definition double_le :: "double \<Rightarrow> double \<Rightarrow> bool" where
  "double_le a b = (a = b \<or> double_less a b)"

text \<open>The literals \<open>1\<close>, \<open>0.3\<close> (the double \<open>5404319552844595 / 2^54\<close>), \<open>4\<close> and \<open>10\<close>.\<close>

definition double_1 :: double where "double_1 = Finite (2 ^ 54)"
definition double_0_3 :: double where "double_0_3 = Finite 5404319552844595"
definition double_4 :: double where "double_4 = Finite (4 * 2 ^ 54)"
definition double_10 :: double where "double_10 = Finite (10 * 2 ^ 54)"

subsection \<open>The page\<close>

text \<open>
  The document as the two scripts see it: which ids \<open>document.getElementById\<close> finds,
  the class list, inline style and text of each element (by id), the style and classes of
  \<open>document.body\<close>, the click listeners, the anonymous nodes appended to the body, the
  pending timeouts, the console, and whether \<open>location.reload\<close> was called.
\<close>

datatype listener = Penguin_handler nat string | Yes_handler | No_handler

datatype callback =
    Remove_notification
  | Reveal_callback
  | Remove_celebration
  | Scroll_into_view
  | Activate_callback

datatype message =
    Warn_load js_error
  | Warn_save js_error
  | Warn_clear js_error
  | Warn_no_secret_section
  | Log_found string nat
  | Log_checking nat nat
  | Log_all_found

datatype node = Notification | Celebration

datatype content = Text string | Number nat

datatype css = Css string | Scale double

record page =
  localStorage :: storage
  element_ids :: "string set"
  classList :: "string \<Rightarrow> string set"
  style :: "string \<Rightarrow> string \<Rightarrow> css option"
  textContent :: "string \<Rightarrow> content option"
  body_classList :: "string set"
  body_style :: "string \<Rightarrow> css option"
  click_listeners :: "(string \<times> listener) list"
  body_nodes :: "node list"
  timeouts :: "(callback \<times> nat) list"
  console :: "message list"
  reload_requested :: bool

definition getElementById :: "page \<Rightarrow> string \<Rightarrow> string option" where
  "getElementById pg i = (if i \<in> element_ids pg then Some i else None)"

definition classList_add :: "string \<Rightarrow> string \<Rightarrow> page \<Rightarrow> page" where
  "classList_add e c pg = pg\<lparr>classList := (classList pg)(e := insert c (classList pg e))\<rparr>"

definition classList_remove :: "string \<Rightarrow> string \<Rightarrow> page \<Rightarrow> page" where
  "classList_remove e c pg = pg\<lparr>classList := (classList pg)(e := classList pg e - {c})\<rparr>"

definition style_set :: "string \<Rightarrow> string \<Rightarrow> css \<Rightarrow> page \<Rightarrow> page" where
  "style_set e prop v pg = pg\<lparr>style := (style pg)(e := (style pg e)(prop \<mapsto> v))\<rparr>"

definition console_out :: "message \<Rightarrow> page \<Rightarrow> page" where
  "console_out m pg = pg\<lparr>console := console pg @ [m]\<rparr>"

definition setTimeout :: "callback \<Rightarrow> nat \<Rightarrow> page \<Rightarrow> page" where
  "setTimeout f ms pg = pg\<lparr>timeouts := timeouts pg @ [(f, ms)]\<rparr>"

section \<open>main.js: the functions exported as \<open>window.mainFunctions\<close>\<close>

definition showPenguinCounter :: "page \<Rightarrow> page" where
  "showPenguinCounter pg =
     (if ''penguinCounter'' \<in> element_ids pg then classList_add ''penguinCounter'' ''show'' pg
      else pg)"

definition updatePenguinCountDisplay :: "nat \<Rightarrow> page \<Rightarrow> page" where
  "updatePenguinCountDisplay count pg =
     (let pg1 = (if ''penguinCount'' \<in> element_ids pg
                 then pg\<lparr>textContent := (textContent pg)(''penguinCount'' \<mapsto> Number count)\<rparr>
                 else pg)
      in if 0 < count then showPenguinCounter pg1 else pg1)"

definition revealSecretSection :: "page \<Rightarrow> page" where
  "revealSecretSection pg =
     (if ''secretSection'' \<in> element_ids pg
      then setTimeout Scroll_into_view 200
             (classList_add ''secretSection'' ''secret-reveal-animation''
               (classList_add ''secretSection'' ''revealed'' pg))
      else console_out Warn_no_secret_section pg)"

text \<open>
  \<open>createCelebrationEffect\<close> and \<open>disablePenguinInteraction\<close> receive what
  \<open>document.getElementById\<close> returned: \<open>None\<close> is \<open>null\<close>, on which reading a property throws.
\<close>

definition createCelebrationEffect :: "string option \<Rightarrow> page \<Rightarrow> js_error + page" where
  "createCelebrationEffect penguinElement pg =
     (case penguinElement of
        None \<Rightarrow> Inl TypeError
      | Some e \<Rightarrow> Inr (classList_add e ''penguin-found-animation'' pg))"

definition disablePenguinInteraction :: "string option \<Rightarrow> page \<Rightarrow> js_error + page" where
  "disablePenguinInteraction container pg =
     (case container of
        None \<Rightarrow> Inl TypeError
      | Some e \<Rightarrow> Inr (classList_add e ''found'' pg))"

section \<open>PenguinTracker\<close>

record 'o tracker =
  penguinIds :: "string list"
  penguinHandlers :: "string set"
  foundPenguins :: "'o jsval list"

text \<open>
  \<open>penguinHandlers\<close> is the \<open>Map\<close> from a penguin id to the handler made for it; the
  handler of tracker \<open>self\<close> for penguin \<open>p\<close> is the value \<open>Penguin_handler self p\<close>, so the
  model keeps the keys.
\<close>

subsection \<open>loadProgress and saveProgress\<close>

text \<open>
  The body of the \<open>try\<close> block of \<open>loadProgress\<close>: \<open>Inl\<close> is an exception, \<open>Inr (Some s)\<close>
  the early \<open>return\<close>, \<open>Inr None\<close> falling through when \<open>saved\<close> is \<open>null\<close> or the empty
  string (both falsy).
\<close>

definition loadProgress_try :: "'o platform \<Rightarrow> storage \<Rightarrow> js_error + 'o jsval list option" where
  "loadProgress_try P st =
     (case getItem st ''penguinsFound'' of
        Inl e \<Rightarrow> Inl e
      | Inr None \<Rightarrow> Inr None
      | Inr (Some saved) \<Rightarrow>
          (if saved = [] then Inr None
           else (case JSON_parse P saved of
                   None \<Rightarrow> Inl SyntaxError
                 | Some v \<Rightarrow>
                     (case new_Set P v of
                        Inl e \<Rightarrow> Inl e
                      | Inr s \<Rightarrow> Inr (Some s)))))"

definition loadProgress :: "'o platform \<Rightarrow> page \<Rightarrow> 'o jsval list \<times> page" where
  "loadProgress P pg =
     (case loadProgress_try P (localStorage pg) of
        Inl e \<Rightarrow> ([], console_out (Warn_load e) pg)
      | Inr None \<Rightarrow> ([], pg)
      | Inr (Some s) \<Rightarrow> (s, pg))"

definition saveProgress :: "'o platform \<Rightarrow> 'o tracker \<Rightarrow> page \<Rightarrow> page" where
  "saveProgress P t pg =
     (case setItem (localStorage pg) ''penguinsFound'' (JSON_stringify P (foundPenguins t)) of
        Inl e \<Rightarrow> console_out (Warn_save e) pg
      | Inr st \<Rightarrow> pg\<lparr>localStorage := st\<rparr>)"

subsection \<open>Display, feedback and completion\<close>

definition updateDisplay :: "'o tracker \<Rightarrow> page \<Rightarrow> page" where
  "updateDisplay t pg = updatePenguinCountDisplay (length (foundPenguins t)) pg"

definition showPenguinFoundFeedback :: "page \<Rightarrow> page" where
  "showPenguinFoundFeedback pg =
     (let pg1 = pg\<lparr>body_nodes := body_nodes pg @ [Notification]\<rparr>;
          pg2 = (if ''penguinFeedbackStyle'' \<notin> element_ids pg1
                 then pg1\<lparr>element_ids := insert ''penguinFeedbackStyle'' (element_ids pg1)\<rparr>
                 else pg1)
      in setTimeout Remove_notification 2000 pg2)"

definition allPenguinsFound :: "page \<Rightarrow> page" where
  "allPenguinsFound pg = setTimeout Reveal_callback 300 pg"

text \<open>The test of \<open>checkForCompletion\<close>: \<open>this.foundPenguins.size === this.penguinIds.length\<close>.\<close>

definition isComplete :: "'o tracker \<Rightarrow> bool" where
  "isComplete t = (length (foundPenguins t) = length (penguinIds t))"

definition checkForCompletion :: "'o tracker \<Rightarrow> page \<Rightarrow> page" where
  "checkForCompletion t pg =
     (let pg1 = console_out (Log_checking (length (foundPenguins t)) (length (penguinIds t))) pg
      in if isComplete t then allPenguinsFound (console_out Log_all_found pg1) else pg1)"

definition showCompletionCelebration :: "page \<Rightarrow> page" where
  "showCompletionCelebration pg =
     (let pg1 = pg\<lparr>body_nodes := body_nodes pg @ [Celebration]\<rparr>;
          pg2 = (if ''celebrationStyle'' \<notin> element_ids pg1
                 then pg1\<lparr>element_ids := insert ''celebrationStyle'' (element_ids pg1)\<rparr>
                 else pg1)
      in setTimeout Remove_celebration 1000 pg2)"

subsection \<open>initPenguins and the constructor\<close>

definition initPenguin :: "nat \<Rightarrow> string \<Rightarrow> 'o tracker \<times> page \<Rightarrow> 'o tracker \<times> page" where
  "initPenguin self penguinId s =
     (case s of (t, pg) \<Rightarrow>
        (case getElementById pg penguinId of
           None \<Rightarrow> (t, pg)
         | Some e \<Rightarrow>
             (if JString penguinId \<in> set (foundPenguins t)
              then (t, classList_add e ''found'' pg)
              else (t\<lparr>penguinHandlers := insert penguinId (penguinHandlers t)\<rparr>,
                    pg\<lparr>click_listeners :=
                         click_listeners pg @ [(e, Penguin_handler self penguinId)]\<rparr>))))"

definition initPenguins :: "nat \<Rightarrow> 'o tracker \<times> page \<Rightarrow> 'o tracker \<times> page" where
  "initPenguins self s = foldl (\<lambda>s' penguinId. initPenguin self penguinId s') s (penguinIds (fst s))"

definition new_PenguinTracker :: "'o platform \<Rightarrow> nat \<Rightarrow> page \<Rightarrow> 'o tracker \<times> page" where
  "new_PenguinTracker P self pg =
     (case loadProgress P pg of (found, pg1) \<Rightarrow>
        (case initPenguins self
                (\<lparr>penguinIds = [''penguin1'', ''penguin2'', ''penguin3'', ''penguin4'', ''penguin5''],
                  penguinHandlers = {},
                  foundPenguins = found\<rparr>, pg1) of
           (t, pg2) \<Rightarrow> (t, updateDisplay t pg2)))"

subsection \<open>handlePenguinClick\<close>

text \<open>
  The result is the exception the call ends with (\<open>None\<close> when it returns) and the state
  it leaves: what was done before a \<open>throw\<close> stays done. The \<open>event\<close> argument is the click
  Event the listener receives; \<open>preventDefault\<close> and \<open>stopPropagation\<close> change only that
  object, which nothing reads afterwards.
\<close>

definition handlePenguinClick ::
  "'o platform \<Rightarrow> nat \<Rightarrow> string \<Rightarrow> 'o tracker \<times> page \<Rightarrow> js_error option \<times> 'o tracker \<times> page" where
  "handlePenguinClick P self penguinId s =
     (case s of (t, pg) \<Rightarrow>
        (let t1 = t\<lparr>foundPenguins := Set_add (JString penguinId) (foundPenguins t)\<rparr>;
             pg1 = saveProgress P t1 pg;
             pg2 = console_out (Log_found penguinId (length (foundPenguins t1))) pg1;
             penguinContainer = getElementById pg2 penguinId
         in (case createCelebrationEffect penguinContainer pg2 of
               Inl e \<Rightarrow> (Some e, t1, pg2)
             | Inr pg3 \<Rightarrow>
                 (let (t2, pg4) =
                        (if penguinId \<in> penguinHandlers t1
                         then (t1\<lparr>penguinHandlers := penguinHandlers t1 - {penguinId}\<rparr>,
                               pg3\<lparr>click_listeners :=
                                     removeAll (penguinId, Penguin_handler self penguinId)
                                       (click_listeners pg3)\<rparr>)
                         else (t1, pg3))
                  in (case disablePenguinInteraction penguinContainer pg4 of
                        Inl e \<Rightarrow> (Some e, t2, pg4)
                      | Inr pg5 \<Rightarrow>
                          (None, t2,
                           checkForCompletion t2
                             (showPenguinFoundFeedback (updateDisplay t2 pg5))))))))"

text \<open>A sequence of calls: an exception ends one call, not the ones after it.\<close>

fun handlePenguinClicks ::
  "'o platform \<Rightarrow> nat \<Rightarrow> string list \<Rightarrow> 'o tracker \<times> page \<Rightarrow> 'o tracker \<times> page" where
  "handlePenguinClicks P self [] s = s"
| "handlePenguinClicks P self (penguinId # rest) s =
     handlePenguinClicks P self rest (snd (handlePenguinClick P self penguinId s))"

text \<open>
  A click on a penguin reaches \<open>handlePenguinClick\<close> only through the listener that
  \<open>initPenguins\<close> registered and the first click removes: the browser calls a listener
  that is registered on the element and no other.
\<close>

definition click_penguin ::
  "'o platform \<Rightarrow> nat \<Rightarrow> string \<Rightarrow> 'o tracker \<times> page \<Rightarrow> js_error option \<times> 'o tracker \<times> page" where
  "click_penguin P self penguinId s =
     (if (penguinId, Penguin_handler self penguinId) \<in> set (click_listeners (snd s))
      then handlePenguinClick P self penguinId s
      else (None, s))"

fun click_penguins ::
  "'o platform \<Rightarrow> nat \<Rightarrow> string list \<Rightarrow> 'o tracker \<times> page \<Rightarrow> 'o tracker \<times> page" where
  "click_penguins P self [] s = s"
| "click_penguins P self (penguinId # rest) s =
     click_penguins P self rest (snd (click_penguin P self penguinId s))"

text \<open>The number of times \<open>allPenguinsFound\<close> has scheduled the reveal.\<close>

definition reveals :: "page \<Rightarrow> nat" where
  "reveals pg = length (filter (\<lambda>x. fst x = Reveal_callback) (timeouts pg))"

subsection \<open>reset\<close>

definition reset :: "'o platform \<Rightarrow> 'o tracker \<times> page \<Rightarrow> 'o tracker \<times> page" where
  "reset P s =
     (case s of (t, pg) \<Rightarrow>
        (let t1 = t\<lparr>foundPenguins := []\<rparr>
         in (t1, (saveProgress P t1 pg)\<lparr>reload_requested := True\<rparr>)))"

section \<open>main.js: IntroHandler\<close>

record intro_handler =
  btnYes :: "string option"
  btnNo :: "string option"
  introSection :: "string option"
  mainContent :: "string option"
  noMessages :: "string list"
  noClickCount :: nat
  yesScale :: double

text \<open>
  The last message ends with the character U+1F494, written here as its UTF-8 bytes.
\<close>

definition initIntro :: "intro_handler \<Rightarrow> page \<Rightarrow> page" where
  "initIntro h pg =
     (case (btnYes h, btnNo h) of
        (Some y, Some n) \<Rightarrow>
          pg\<lparr>click_listeners := click_listeners pg @ [(y, Yes_handler), (n, No_handler)]\<rparr>
      | _ \<Rightarrow> pg)"

definition new_IntroHandler :: "page \<Rightarrow> intro_handler \<times> page" where
  "new_IntroHandler pg =
     (let h = \<lparr>btnYes = getElementById pg ''btnYes'',
                btnNo = getElementById pg ''btnNo'',
                introSection = getElementById pg ''introSection'',
                mainContent = getElementById pg ''mainContent'',
                noMessages = [''No'', ''Are you sure??'', ''Really sure??'', ''Positive??'',
                              ''I'll be really sad...'',
                              ''Please? '' @ [CHR 0xF0, CHR 0x9F, CHR 0x92, CHR 0x94]],
                noClickCount = 0,
                yesScale = double_1\<rparr>
      in (h, initIntro h pg))"

definition handleYes :: "intro_handler \<times> page \<Rightarrow> js_error option \<times> intro_handler \<times> page" where
  "handleYes s =
     (case s of (h, pg) \<Rightarrow>
        (case introSection h of
           None \<Rightarrow> (Some TypeError, h, pg)
         | Some i \<Rightarrow>
             (let pg1 = style_set i ''pointerEvents'' (Css ''none'')
                          (style_set i ''visibility'' (Css ''hidden'')
                            (style_set i ''opacity'' (Css ''0'') pg));
                  pg2 = pg1\<lparr>body_style := (body_style pg1)(''overflow'' \<mapsto> Css ''auto'')\<rparr>
              in (case mainContent h of
                    None \<Rightarrow> (Some TypeError, h, pg2)
                  | Some m \<Rightarrow>
                      (None, h, setTimeout Activate_callback 100 (classList_remove m ''hidden'' pg2))))))"

definition makeYesOnlyOption :: "intro_handler \<Rightarrow> page \<Rightarrow> js_error option \<times> page" where
  "makeYesOnlyOption h pg =
     (case btnNo h of
        None \<Rightarrow> (Some TypeError, pg)
      | Some n \<Rightarrow>
          (let pg1 = style_set n ''display'' (Css ''none'') pg
           in (case btnYes h of
                 None \<Rightarrow> (Some TypeError, pg1)
               | Some y \<Rightarrow>
                   (None,
                    style_set y ''transform'' (Css ''scale(1)'')
                     (style_set y ''margin'' (Css ''0'')
                      (style_set y ''zIndex'' (Css ''9999'')
                       (style_set y ''fontSize'' (Css ''4rem'')
                        (style_set y ''borderRadius'' (Css ''0'')
                         (style_set y ''height'' (Css ''100%'')
                          (style_set y ''width'' (Css ''100%'')
                           (style_set y ''left'' (Css ''0'')
                            (style_set y ''top'' (Css ''0'')
                             (style_set y ''position'' (Css ''fixed'') pg1)))))))))))))"

text \<open>
  The statements of \<open>handleNo\<close> run in order, and an exception ends the call where it
  is thrown, with what was done before it: \<open>and_then r f\<close> goes on with \<open>f\<close> when \<open>r\<close>
  carries no exception.

  \<open>noClickCount++\<close> is an addition of doubles too: it is exact below \<open>2^53\<close>, where
  \<open>2^53 + 1\<close> rounds back to \<open>2^53\<close>. Reading \<open>noMessages\<close> out of range would give
  \<open>undefined\<close>, which \<open>textContent\<close> takes as the empty text.
\<close>

definition and_then ::
  "js_error option \<times> 's \<Rightarrow> ('s \<Rightarrow> js_error option \<times> 's) \<Rightarrow> js_error option \<times> 's" where
  "and_then r f = (case r of (None, s) \<Rightarrow> f s | (Some e, s) \<Rightarrow> (Some e, s))"

definition handleNo :: "intro_handler \<times> page \<Rightarrow> js_error option \<times> intro_handler \<times> page" where
  "handleNo s =
     and_then (and_then (and_then (and_then
       (case s of (h, pg) \<Rightarrow>
          (None,
           h\<lparr>noClickCount :=
               (if noClickCount h < 2 ^ 53 then noClickCount h + 1 else noClickCount h)\<rparr>,
           pg))
       (\<lambda>(h, pg).
          if noClickCount h \<le> length (noMessages h)
          then (case btnNo h of
                  None \<Rightarrow> (Some TypeError, h, pg)
                | Some n \<Rightarrow>
                    (None, h,
                     pg\<lparr>textContent := (textContent pg)(n \<mapsto>
                          (if noClickCount h - 1 < length (noMessages h)
                           then Text (noMessages h ! (noClickCount h - 1))
                           else Text []))\<rparr>))
          else (None, h, pg)))
       (\<lambda>(h, pg).
          (case btnYes h of
             None \<Rightarrow> (Some TypeError, h\<lparr>yesScale := double_add (yesScale h) double_0_3\<rparr>, pg)
           | Some y \<Rightarrow>
               (None, h\<lparr>yesScale := double_add (yesScale h) double_0_3\<rparr>,
                classList_add y ''growing''
                  (style_set y ''zIndex'' (Css ''11'')
                    (style_set y ''transform''
                      (Scale (double_add (yesScale h) double_0_3)) pg))))))
       (\<lambda>(h, pg).
          if double_less double_4 (yesScale h)
          then (case btnNo h of
                  None \<Rightarrow> (Some TypeError, h, pg)
                | Some n \<Rightarrow>
                    (None, h,
                     style_set n ''cursor'' (Css ''not-allowed'')
                       (style_set n ''pointerEvents'' (Css ''none'')
                         (style_set n ''opacity'' (Css ''0.3'') pg))))
          else (None, h, pg)))
       (\<lambda>(h, pg).
          if double_less double_10 (yesScale h)
          then (case makeYesOnlyOption h pg of (err, pg') \<Rightarrow> (err, h, pg'))
          else (None, h, pg))"

fun handleNos :: "nat \<Rightarrow> intro_handler \<times> page \<Rightarrow> intro_handler \<times> page" where
  "handleNos 0 s = s"
| "handleNos (Suc k) s = snd (handleNo (handleNos k s))"

text \<open>
  A click of the pointer reaches the listeners of an element unless the element's own
  style takes it out of hit testing (\<open>pointer-events: none\<close>) or out of the rendering
  (\<open>display: none\<close>).
\<close>

definition accepts_pointer :: "page \<Rightarrow> string \<Rightarrow> bool" where
  "accepts_pointer pg e =
     (e \<in> element_ids pg \<and> style pg e ''pointerEvents'' \<noteq> Some (Css ''none'')
      \<and> style pg e ''display'' \<noteq> Some (Css ''none''))"

definition click_No :: "intro_handler \<times> page \<Rightarrow> js_error option \<times> intro_handler \<times> page" where
  "click_No s =
     (case btnNo (fst s) of
        None \<Rightarrow> (None, s)
      | Some n \<Rightarrow>
          (if (n, No_handler) \<in> set (click_listeners (snd s)) \<and> accepts_pointer (snd s) n
           then handleNo s else (None, s)))"

section \<open>The two scripts on a page\<close>

text \<open>
  The state of a page load: the document, the heap of PenguinTracker objects (a reference
  is an index), the top-level binding \<open>penguinTracker\<close> of the penguin script
  (\<open>None\<close> is \<open>undefined\<close>), the property \<open>window.penguinTracker\<close>, the IntroHandler that
  \<open>initPage\<close> makes, and the listeners waiting for \<open>DOMContentLoaded\<close>.
\<close>

datatype init = InitPage | InitPenguinSystem

record 'o world =
  document :: page
  trackers :: "'o tracker list"
  penguinTracker :: "nat option"
  window_penguinTracker :: "nat option"
  introHandler :: "intro_handler option"
  readyState_loading :: bool
  DOMContentLoaded_listeners :: "init list"

definition initPage :: "'o world \<Rightarrow> 'o world" where
  "initPage w =
     (let pg = document w;
          pg1 = (case removeItem (localStorage pg) ''penguinsFound'' of
                   Inl e \<Rightarrow> console_out (Warn_clear e) pg
                 | Inr st \<Rightarrow> pg\<lparr>localStorage := st\<rparr>);
          pg2 = pg1\<lparr>body_style := (body_style pg1)(''overflow'' \<mapsto> Css ''hidden'')\<rparr>;
          (h, pg3) = new_IntroHandler pg2
      in w\<lparr>document := pg3, introHandler := Some h\<rparr>)"

definition initPenguinSystem :: "'o world \<Rightarrow> 'o world" where
  "initPenguinSystem w = w"

definition activatePenguins :: "'o platform \<Rightarrow> 'o world \<Rightarrow> 'o world" where
  "activatePenguins P w =
     (let self = length (trackers w);
          (t, pg) = new_PenguinTracker P self (document w)
      in w\<lparr>document := pg, trackers := trackers w @ [t], penguinTracker := Some self\<rparr>)"

text \<open>
  The top level of main.js and of the penguin script. Both test \<open>document.readyState\<close>;
  main.js also appends a style sheet and exports \<open>window.mainFunctions\<close>, which the
  tracker's methods call.
\<close>

definition main_js :: "'o world \<Rightarrow> 'o world" where
  "main_js w =
     (if readyState_loading w
      then w\<lparr>DOMContentLoaded_listeners := DOMContentLoaded_listeners w @ [InitPage]\<rparr>
      else initPage w)"

definition penguins_js :: "'o world \<Rightarrow> 'o world" where
  "penguins_js w =
     (let w1 = w\<lparr>penguinTracker := None\<rparr>;
          w2 = (if readyState_loading w1
                then w1\<lparr>DOMContentLoaded_listeners :=
                          DOMContentLoaded_listeners w1 @ [InitPenguinSystem]\<rparr>
                else initPenguinSystem w1)
      in w2\<lparr>window_penguinTracker := penguinTracker w2\<rparr>)"

definition load_scripts :: "'o world \<Rightarrow> 'o world" where
  "load_scripts w = penguins_js (main_js w)"

text \<open>
  What the browser does afterwards: it fires \<open>DOMContentLoaded\<close> once, delivers clicks of
  the pointer to the listeners that the element had when the click began and still has
  when their turn comes, and runs a pending timeout. An exception in a listener ends that
  listener only.
\<close>

datatype event = DOMContentLoaded | Click string | Timeout nat

definition run_init :: "init \<Rightarrow> 'o world \<Rightarrow> 'o world" where
  "run_init i w = (case i of InitPage \<Rightarrow> initPage w | InitPenguinSystem \<Rightarrow> initPenguinSystem w)"

definition run_listener :: "'o platform \<Rightarrow> string \<Rightarrow> listener \<Rightarrow> 'o world \<Rightarrow> 'o world" where
  "run_listener P e l w =
     (if (e, l) \<notin> set (click_listeners (document w)) then w
      else
        (case l of
           Penguin_handler r p \<Rightarrow>
             (if r < length (trackers w)
              then (case handlePenguinClick P r p (trackers w ! r, document w) of
                      (err, t, pg) \<Rightarrow> w\<lparr>document := pg, trackers := (trackers w)[r := t]\<rparr>)
              else w)
         | Yes_handler \<Rightarrow>
             (case introHandler w of
                None \<Rightarrow> w
              | Some h \<Rightarrow>
                  (case handleYes (h, document w) of
                     (err, h', pg) \<Rightarrow> w\<lparr>document := pg, introHandler := Some h'\<rparr>))
         | No_handler \<Rightarrow>
             (case introHandler w of
                None \<Rightarrow> w
              | Some h \<Rightarrow>
                  (case handleNo (h, document w) of
                     (err, h', pg) \<Rightarrow> w\<lparr>document := pg, introHandler := Some h'\<rparr>))))"

definition observeElements :: "page \<Rightarrow> page" where
  "observeElements pg = pg"

definition run_callback :: "'o platform \<Rightarrow> callback \<Rightarrow> 'o world \<Rightarrow> 'o world" where
  "run_callback P f w =
     (let pg = document w
      in case f of
           Remove_notification \<Rightarrow> w\<lparr>document := pg\<lparr>body_nodes := remove1 Notification (body_nodes pg)\<rparr>\<rparr>
         | Reveal_callback \<Rightarrow> w\<lparr>document := revealSecretSection (showCompletionCelebration pg)\<rparr>
         | Remove_celebration \<Rightarrow> w\<lparr>document := pg\<lparr>body_nodes := remove1 Celebration (body_nodes pg)\<rparr>\<rparr>
         | Scroll_into_view \<Rightarrow> w
         | Activate_callback \<Rightarrow>
             (let pg1 = observeElements (pg\<lparr>body_classList := insert ''js-loaded'' (body_classList pg)\<rparr>);
                  pg2 = pg1\<lparr>classList := (\<lambda>e. if e \<in> element_ids pg1 \<and> ''penguin-container'' \<in> classList pg1 e
                                               then insert ''visible'' (classList pg1 e)
                                               else classList pg1 e)\<rparr>
              in activatePenguins P (w\<lparr>document := pg2\<rparr>)))"

definition step :: "'o platform \<Rightarrow> event \<Rightarrow> 'o world \<Rightarrow> 'o world" where
  "step P ev w =
     (case ev of
        DOMContentLoaded \<Rightarrow>
          (if readyState_loading w
           then (foldl (\<lambda>w' i. run_init i w') (w\<lparr>readyState_loading := False\<rparr>)
                   (DOMContentLoaded_listeners w))
           else w)
      | Click e \<Rightarrow>
          (if accepts_pointer (document w) e
           then foldl (\<lambda>w' l. run_listener P e l w') w
                  (map snd (filter (\<lambda>x. fst x = e) (click_listeners (document w))))
           else w)
      | Timeout i \<Rightarrow>
          (let pg = document w
           in if i < length (timeouts pg)
              then run_callback P (fst (timeouts pg ! i))
                     (w\<lparr>document := pg\<lparr>timeouts := take i (timeouts pg) @ drop (Suc i) (timeouts pg)\<rparr>\<rparr>)
              else w))"

fun run :: "'o platform \<Rightarrow> event list \<Rightarrow> 'o world \<Rightarrow> 'o world" where
  "run P [] w = w"
| "run P (ev # evs) w = run P evs (step P ev w)"

text \<open>
  The console entry point that the comment of \<open>reset\<close> documents:
  \<open>window.penguinTracker.reset()\<close>.
\<close>

definition window_penguinTracker_reset :: "'o platform \<Rightarrow> 'o world \<Rightarrow> js_error option \<times> 'o world" where
  "window_penguinTracker_reset P w =
     (case window_penguinTracker w of
        None \<Rightarrow> (Some TypeError, w)
      | Some r \<Rightarrow>
          (case reset P (trackers w ! r, document w) of
             (t, pg) \<Rightarrow> (None, w\<lparr>document := pg, trackers := (trackers w)[r := t]\<rparr>)))"

section \<open>A JSON fragment, for concrete runs\<close>

text \<open>
  A platform to run the model on: the JSON texts made of strings, \<open>null\<close>, \<open>true\<close>,
  \<open>false\<close> and arrays of these, which include every text \<open>saveProgress\<close> writes for a set
  of strings. Numbers, objects, nested arrays and escapes of code units above \<open>0xFF\<close>
  are outside the fragment: this platform does not read them (its \<open>JSON_parse\<close> gives
  \<open>None\<close>, which is not what a browser does there). The theorems below that hold for
  every platform do not depend on it.
\<close>

datatype json_atom = Atom_null | Atom_bool bool | Atom_string string

datatype json_other = Null | Bool bool | Array "json_atom list"

datatype token = T_open | T_close | T_comma | T_atom json_atom

fun atom_value :: "json_atom \<Rightarrow> json_other jsval" where
  "atom_value Atom_null = JOther Null"
| "atom_value (Atom_bool b) = JOther (Bool b)"
| "atom_value (Atom_string s) = JString s"

definition hex_digit :: "nat \<Rightarrow> char" where
  "hex_digit n = ''0123456789abcdef'' ! n"

text \<open>\<open>QuoteJSONString\<close>: the escapes of \<open>JSON.stringify\<close>.\<close>

definition escape_char :: "char \<Rightarrow> string" where
  "escape_char c =
     (if c = CHR 0x22 then [CHR 0x5C, CHR 0x22]
      else if c = CHR 0x5C then [CHR 0x5C, CHR 0x5C]
      else if c = CHR 0x08 then [CHR 0x5C, CHR ''b'']
      else if c = CHR 0x0C then [CHR 0x5C, CHR ''f'']
      else if c = CHR 0x0A then [CHR 0x5C, CHR ''n'']
      else if c = CHR 0x0D then [CHR 0x5C, CHR ''r'']
      else if c = CHR 0x09 then [CHR 0x5C, CHR ''t'']
      else if (of_char c :: nat) < 32
      then [CHR 0x5C, CHR ''u'', CHR ''0'', CHR ''0'',
            hex_digit (of_char c div 16), hex_digit (of_char c mod 16)]
      else [c])"

definition quote_string :: "string \<Rightarrow> string" where
  "quote_string s = [CHR 0x22] @ concat (map escape_char s) @ [CHR 0x22]"

fun join_commas :: "string list \<Rightarrow> string" where
  "join_commas [] = []"
| "join_commas [x] = x"
| "join_commas (x # y # xs) = x @ '','' @ join_commas (y # xs)"

fun stringify_atom :: "json_atom \<Rightarrow> string" where
  "stringify_atom Atom_null = ''null''"
| "stringify_atom (Atom_bool b) = (if b then ''true'' else ''false'')"
| "stringify_atom (Atom_string s) = quote_string s"

fun stringify_value :: "json_other jsval \<Rightarrow> string" where
  "stringify_value (JString s) = quote_string s"
| "stringify_value (JOther Null) = ''null''"
| "stringify_value (JOther (Bool b)) = (if b then ''true'' else ''false'')"
| "stringify_value (JOther (Array xs)) = ''['' @ join_commas (map stringify_atom xs) @ '']''"

definition stringify_array :: "json_other jsval list \<Rightarrow> string" where
  "stringify_array vs = ''['' @ join_commas (map stringify_value vs) @ '']''"

definition hex_value :: "char \<Rightarrow> nat option" where
  "hex_value c =
     (let n = (of_char c :: nat)
      in if 48 \<le> n \<and> n \<le> 57 then Some (n - 48)
         else if 97 \<le> n \<and> n \<le> 102 then Some (n - 87)
         else if 65 \<le> n \<and> n \<le> 70 then Some (n - 55)
         else None)"

definition unescape :: "char \<Rightarrow> char option" where
  "unescape e =
     (if e = CHR 0x22 \<or> e = CHR 0x5C \<or> e = CHR ''/'' then Some e
      else if e = CHR ''b'' then Some (CHR 0x08)
      else if e = CHR ''f'' then Some (CHR 0x0C)
      else if e = CHR ''n'' then Some (CHR 0x0A)
      else if e = CHR ''r'' then Some (CHR 0x0D)
      else if e = CHR ''t'' then Some (CHR 0x09)
      else None)"

definition cons_token :: "token \<Rightarrow> token list option \<Rightarrow> token list option" where
  "cons_token t r = map_option ((#) t) r"

text \<open>
  The lexer, one character at a time: \<open>None\<close> as the second argument between tokens,
  \<open>Some acc\<close> inside a string whose characters so far are \<open>acc\<close>, last first.
\<close>

fun tokens :: "string option \<Rightarrow> string \<Rightarrow> token list option" where
  "tokens None [] = Some []"
| "tokens (Some acc) [] = None"
| "tokens None (c # cs) =
     (if c = CHR '' '' \<or> c = CHR 0x09 \<or> c = CHR 0x0A \<or> c = CHR 0x0D then tokens None cs
      else if c = CHR ''['' then cons_token T_open (tokens None cs)
      else if c = CHR '']'' then cons_token T_close (tokens None cs)
      else if c = CHR '','' then cons_token T_comma (tokens None cs)
      else if c = CHR 0x22 then tokens (Some []) cs
      else if c = CHR ''n'' then
        (case cs of
           a # b # d # r \<Rightarrow>
             (if [a, b, d] = ''ull'' then cons_token (T_atom Atom_null) (tokens None r) else None)
         | _ \<Rightarrow> None)
      else if c = CHR ''t'' then
        (case cs of
           a # b # d # r \<Rightarrow>
             (if [a, b, d] = ''rue'' then cons_token (T_atom (Atom_bool True)) (tokens None r)
              else None)
         | _ \<Rightarrow> None)
      else if c = CHR ''f'' then
        (case cs of
           a # b # d # e # r \<Rightarrow>
             (if [a, b, d, e] = ''alse'' then cons_token (T_atom (Atom_bool False)) (tokens None r)
              else None)
         | _ \<Rightarrow> None)
      else None)"
| "tokens (Some acc) (c # cs) =
     (if c = CHR 0x22 then cons_token (T_atom (Atom_string (rev acc))) (tokens None cs)
      else if c = CHR 0x5C then
        (case cs of
           [] \<Rightarrow> None
         | e # r \<Rightarrow>
             (case unescape e of
                Some d \<Rightarrow> tokens (Some (d # acc)) r
              | None \<Rightarrow>
                  (if e = CHR ''u'' then
                     (case r of
                        h1 # h2 # h3 # h4 # r' \<Rightarrow>
                          (case (hex_value h1, hex_value h2, hex_value h3, hex_value h4) of
                             (Some 0, Some 0, Some x, Some y) \<Rightarrow>
                               tokens (Some (char_of (16 * x + y) # acc)) r'
                           | _ \<Rightarrow> None)
                      | _ \<Rightarrow> None)
                   else None)))
      else if (of_char c :: nat) < 32 then None
      else tokens (Some (c # acc)) cs)"

fun array_items :: "token list \<Rightarrow> json_atom list option" where
  "array_items [T_atom a, T_close] = Some [a]"
| "array_items (T_atom a # T_comma # ts) = map_option ((#) a) (array_items ts)"
| "array_items _ = None"

definition parse_tokens :: "token list \<Rightarrow> json_other jsval option" where
  "parse_tokens ts =
     (case ts of
        [T_atom a] \<Rightarrow> Some (atom_value a)
      | [T_open, T_close] \<Rightarrow> Some (JOther (Array []))
      | T_open # ts' \<Rightarrow> map_option (\<lambda>xs. JOther (Array xs)) (array_items ts')
      | _ \<Rightarrow> None)"

definition fragment_parse :: "string \<Rightarrow> json_other jsval option" where
  "fragment_parse text = (case tokens None text of None \<Rightarrow> None | Some ts \<Rightarrow> parse_tokens ts)"

fun fragment_elements :: "json_other \<Rightarrow> json_other jsval list option" where
  "fragment_elements Null = Some []"
| "fragment_elements (Bool b) = None"
| "fragment_elements (Array xs) = Some (map atom_value xs)"

definition json_fragment :: "json_other platform" where
  "json_fragment =
     \<lparr>JSON_parse = fragment_parse,
      JSON_stringify = stringify_array,
      iterable_elements = fragment_elements\<rparr>"

text \<open>
  A page to run on: a storage that works and holds nothing, and a document with the five
  penguins, the counter, the secret section and the parts of the intro screen.
\<close>

definition empty_storage :: storage where
  "empty_storage = \<lparr>accessible = True, quota = 5000000, items = (\<lambda>k. None)\<rparr>"

definition example_page :: page where
  "example_page =
     \<lparr>localStorage = empty_storage,
      element_ids = {''penguin1'', ''penguin2'', ''penguin3'', ''penguin4'', ''penguin5'',
                     ''penguinCount'', ''penguinCounter'', ''secretSection'',
                     ''btnYes'', ''btnNo'', ''introSection'', ''mainContent''},
      classList = (\<lambda>e. {}),
      style = (\<lambda>e p. None),
      textContent = (\<lambda>e. None),
      body_classList = {},
      body_style = (\<lambda>p. None),
      click_listeners = [],
      body_nodes = [],
      timeouts = [],
      console = [],
      reload_requested = False\<rparr>"

definition example_world :: "json_other world" where
  "example_world =
     \<lparr>document = example_page,
      trackers = [],
      penguinTracker = None,
      window_penguinTracker = None,
      introHandler = None,
      readyState_loading = True,
      DOMContentLoaded_listeners = []\<rparr>"

section \<open>Invariants used in the proofs\<close>

text \<open>
  A string that \<open>JSON.stringify\<close> writes as it is, between quotes: no quote, no backslash,
  no control character. The tokens of the items of an array of such strings.
\<close>

definition plain :: "string \<Rightarrow> bool" where
  "plain s = (\<forall>c \<in> set s. c \<noteq> CHR 0x22 \<and> c \<noteq> CHR 0x5C \<and> 32 \<le> (of_char c :: nat))"

fun item_tokens :: "string list \<Rightarrow> token list" where
  "item_tokens [] = []"
| "item_tokens [x] = [T_atom (Atom_string x), T_close]"
| "item_tokens (x # y # xs) = T_atom (Atom_string x) # T_comma # item_tokens (y # xs)"


text \<open>
  A listener of tracker \<open>self\<close> that is still registered belongs to a penguin whose element
  exists, whose handler is in \<open>penguinHandlers\<close> and which is not in the found set.
\<close>

definition listener_inv :: "nat \<Rightarrow> 'o tracker \<times> page \<Rightarrow> bool" where
  "listener_inv self s =
     (\<forall>p. (p, Penguin_handler self p) \<in> set (click_listeners (snd s)) \<longrightarrow>
          p \<in> penguinHandlers (fst s) \<and> JString p \<notin> set (foundPenguins (fst s))
          \<and> p \<in> element_ids (snd s))"


text \<open>
  The storage holds no saved progress that a load could read. Until the first tracker is
  made, either that is so or \<open>initPage\<close> has not run yet: no listener of the Yes button
  and no pending activation.
\<close>

definition cleared :: "storage \<Rightarrow> bool" where
  "cleared st = (accessible st \<longrightarrow> items st ''penguinsFound'' = None)"

definition before_first_tracker :: "'o world \<Rightarrow> bool" where
  "before_first_tracker w =
     (trackers w = [] \<longrightarrow>
        cleared (localStorage (document w))
        \<or> ((\<forall>e. (e, Yes_handler) \<notin> set (click_listeners (document w)))
            \<and> Activate_callback \<notin> fst ` set (timeouts (document w))))"

text \<open>What \<open>handleNo\<close> leaves alone in the page.\<close>

definition same_core :: "page \<Rightarrow> intro_handler \<times> page \<Rightarrow> bool" where
  "same_core pg s =
     (click_listeners (snd s) = click_listeners pg \<and> timeouts (snd s) = timeouts pg
      \<and> localStorage (snd s) = localStorage pg \<and> element_ids (snd s) = element_ids pg)"

text \<open>A page load of a visitor who comes back: the storage holds two penguins.\<close>

definition returning_world :: "json_other world" where
  "returning_world =
     example_world\<lparr>document := example_page\<lparr>localStorage := empty_storage\<lparr>items :=
       (\<lambda>k. if k = ''penguinsFound''
             then Some (stringify_array [JString ''penguin1'', JString ''penguin2'']) else None)\<rparr>\<rparr>\<rparr>"

text \<open>
  A multiple of \<open>2^-54\<close> that is a double: its bits after the first 53 are zero. The
  values of \<open>yesScale\<close> are such, and once \<open>yesScale\<close> exceeds 4 the No button's
  \<open>pointerEvents\<close> is \<open>none\<close>.
\<close>

definition is_double :: "nat \<Rightarrow> bool" where
  "is_double n = (2 ^ (floorlog 2 n - 53) dvd n)"

definition valid_double :: "double \<Rightarrow> bool" where
  "valid_double d = (case d of Finite n \<Rightarrow> is_double n | Infinity \<Rightarrow> True)"

definition decline_inv :: "intro_handler \<times> page \<Rightarrow> bool" where
  "decline_inv s =
     (btnYes (fst s) = Some ''btnYes'' \<and> btnNo (fst s) = Some ''btnNo''
      \<and> valid_double (yesScale (fst s)) \<and> length (noMessages (fst s)) = 6
      \<and> (double_less double_4 (yesScale (fst s)) \<longrightarrow>
            style (snd s) ''btnNo'' ''pointerEvents'' = Some (Css ''none'')))"

section \<open>Properties of the tracker\<close>

subsection \<open>What each operation leaves alone\<close>

lemma set_Set_add: "set (Set_add v s) = insert v (set s)"
  by (auto simp: Set_add_def)

lemma distinct_Set_add: "distinct s \<Longrightarrow> distinct (Set_add v s)"
  by (auto simp: Set_add_def)

lemma length_Set_add: "length (Set_add v s) = (if v \<in> set s then length s else Suc (length s))"
  by (simp add: Set_add_def)

lemma saveProgress_fields [simp]:
  "element_ids (saveProgress P t pg) = element_ids pg"
  "click_listeners (saveProgress P t pg) = click_listeners pg"
  "timeouts (saveProgress P t pg) = timeouts pg"
  "body_nodes (saveProgress P t pg) = body_nodes pg"
  by (simp_all add: saveProgress_def console_out_def split: sum.splits)

lemma console_out_fields [simp]:
  "element_ids (console_out m pg) = element_ids pg"
  "click_listeners (console_out m pg) = click_listeners pg"
  "timeouts (console_out m pg) = timeouts pg"
  "localStorage (console_out m pg) = localStorage pg"
  "body_nodes (console_out m pg) = body_nodes pg"
  "console (console_out m pg) = console pg @ [m]"
  by (simp_all add: console_out_def)

lemma classList_add_fields [simp]:
  "element_ids (classList_add e c pg) = element_ids pg"
  "click_listeners (classList_add e c pg) = click_listeners pg"
  "timeouts (classList_add e c pg) = timeouts pg"
  "localStorage (classList_add e c pg) = localStorage pg"
  "body_nodes (classList_add e c pg) = body_nodes pg"
  "console (classList_add e c pg) = console pg"
  by (simp_all add: classList_add_def)

lemma setTimeout_fields [simp]:
  "element_ids (setTimeout f ms pg) = element_ids pg"
  "click_listeners (setTimeout f ms pg) = click_listeners pg"
  "timeouts (setTimeout f ms pg) = timeouts pg @ [(f, ms)]"
  "localStorage (setTimeout f ms pg) = localStorage pg"
  "body_nodes (setTimeout f ms pg) = body_nodes pg"
  "console (setTimeout f ms pg) = console pg"
  by (simp_all add: setTimeout_def)

lemma updateDisplay_fields [simp]:
  "element_ids (updateDisplay t pg) = element_ids pg"
  "click_listeners (updateDisplay t pg) = click_listeners pg"
  "timeouts (updateDisplay t pg) = timeouts pg"
  "localStorage (updateDisplay t pg) = localStorage pg"
  "body_nodes (updateDisplay t pg) = body_nodes pg"
  "console (updateDisplay t pg) = console pg"
  by (simp_all add: updateDisplay_def updatePenguinCountDisplay_def showPenguinCounter_def Let_def)

lemma showPenguinFoundFeedback_fields [simp]:
  "element_ids (showPenguinFoundFeedback pg) = insert ''penguinFeedbackStyle'' (element_ids pg)"
  "click_listeners (showPenguinFoundFeedback pg) = click_listeners pg"
  "timeouts (showPenguinFoundFeedback pg) = timeouts pg @ [(Remove_notification, 2000)]"
  "localStorage (showPenguinFoundFeedback pg) = localStorage pg"
  "body_nodes (showPenguinFoundFeedback pg) = body_nodes pg @ [Notification]"
  "console (showPenguinFoundFeedback pg) = console pg"
  by (auto simp: showPenguinFoundFeedback_def Let_def)

lemma checkForCompletion_fields [simp]:
  "element_ids (checkForCompletion t pg) = element_ids pg"
  "click_listeners (checkForCompletion t pg) = click_listeners pg"
  "timeouts (checkForCompletion t pg) =
     timeouts pg @ (if isComplete t then [(Reveal_callback, 300)] else [])"
  "localStorage (checkForCompletion t pg) = localStorage pg"
  "body_nodes (checkForCompletion t pg) = body_nodes pg"
  "console (checkForCompletion t pg) =
     console pg @ [Log_checking (length (foundPenguins t)) (length (penguinIds t))]
       @ (if isComplete t then [Log_all_found] else [])"
  by (simp_all add: checkForCompletion_def allPenguinsFound_def Let_def)

text \<open>The two ways a call of handlePenguinClick ends.\<close>

lemma handlePenguinClick_missing:
  assumes "i \<notin> element_ids pg"
  shows "handlePenguinClick P self i (t, pg) =
           (Some TypeError,
            t\<lparr>foundPenguins := Set_add (JString i) (foundPenguins t)\<rparr>,
            console_out (Log_found i (length (Set_add (JString i) (foundPenguins t))))
              (saveProgress P (t\<lparr>foundPenguins := Set_add (JString i) (foundPenguins t)\<rparr>) pg))"
  using assms
  by (simp add: handlePenguinClick_def Let_def createCelebrationEffect_def getElementById_def)

lemma handlePenguinClick_present:
  assumes "i \<in> element_ids pg"
  shows "handlePenguinClick P self i (t, pg) =
           (let t1 = t\<lparr>foundPenguins := Set_add (JString i) (foundPenguins t)\<rparr>;
                t2 = (if i \<in> penguinHandlers t
                      then t1\<lparr>penguinHandlers := penguinHandlers t - {i}\<rparr> else t1);
                pg2 = console_out (Log_found i (length (foundPenguins t1))) (saveProgress P t1 pg);
                pg3 = classList_add i ''penguin-found-animation'' pg2;
                pg4 = (if i \<in> penguinHandlers t
                       then pg3\<lparr>click_listeners :=
                                  removeAll (i, Penguin_handler self i) (click_listeners pg3)\<rparr>
                       else pg3)
            in (None, t2,
                checkForCompletion t2
                  (showPenguinFoundFeedback (updateDisplay t2 (classList_add i ''found'' pg4)))))"
  using assms
  by (simp add: handlePenguinClick_def Let_def createCelebrationEffect_def getElementById_def
      disablePenguinInteraction_def)

lemma handlePenguinClick_found:
  "foundPenguins (fst (snd (handlePenguinClick P self i (t, pg)))) = Set_add (JString i) (foundPenguins t)"
  by (cases "i \<in> element_ids pg")
     (simp_all add: handlePenguinClick_missing handlePenguinClick_present Let_def)

lemma handlePenguinClick_penguinIds:
  "penguinIds (fst (snd (handlePenguinClick P self i (t, pg)))) = penguinIds t"
  by (cases "i \<in> element_ids pg")
     (simp_all add: handlePenguinClick_missing handlePenguinClick_present Let_def)

lemma handlePenguinClick_error:
  "fst (handlePenguinClick P self i (t, pg)) = (if i \<in> element_ids pg then None else Some TypeError)"
  by (cases "i \<in> element_ids pg")
     (simp_all add: handlePenguinClick_missing handlePenguinClick_present Let_def)

lemma handlePenguinClick_element_ids:
  "element_ids pg \<subseteq> element_ids (snd (snd (handlePenguinClick P self i (t, pg))))"
  by (cases "i \<in> element_ids pg")
     (auto simp: handlePenguinClick_missing handlePenguinClick_present Let_def)

lemma handlePenguinClick_reveals:
  "reveals (snd (snd (handlePenguinClick P self i (t, pg)))) =
     reveals pg +
       (if i \<in> element_ids pg \<and> length (Set_add (JString i) (foundPenguins t)) = length (penguinIds t)
        then 1 else 0)"
  by (cases "i \<in> element_ids pg")
     (simp_all add: handlePenguinClick_missing handlePenguinClick_present Let_def reveals_def
        isComplete_def)

lemma handlePenguinClick_listeners:
  "click_listeners (snd (snd (handlePenguinClick P self i (t, pg)))) =
     (if i \<in> element_ids pg \<and> i \<in> penguinHandlers t
      then removeAll (i, Penguin_handler self i) (click_listeners pg)
      else click_listeners pg)"
  by (cases "i \<in> element_ids pg")
     (simp_all add: handlePenguinClick_missing handlePenguinClick_present Let_def)

lemma handlePenguinClick_handlers:
  "penguinHandlers (fst (snd (handlePenguinClick P self i (t, pg)))) =
     (if i \<in> element_ids pg then penguinHandlers t - {i} else penguinHandlers t)"
  by (cases "i \<in> element_ids pg")
     (auto simp: handlePenguinClick_missing handlePenguinClick_present Let_def)


subsection \<open>Sequences of calls\<close>

lemma handlePenguinClicks_found_set:
  "set (foundPenguins (fst (handlePenguinClicks P self ids s))) =
     set (foundPenguins (fst s)) \<union> JString ` set ids"
proof (induction ids arbitrary: s)
  case Nil
  then show ?case by simp
next
  case (Cons i ids)
  obtain t pg where s: "s = (t, pg)" by (cases s)
  show ?case
    using Cons.IH [of "snd (handlePenguinClick P self i s)"]
    by (simp add: s handlePenguinClick_found set_Set_add)
qed

lemma handlePenguinClicks_distinct:
  "distinct (foundPenguins (fst s)) \<Longrightarrow>
     distinct (foundPenguins (fst (handlePenguinClicks P self ids s)))"
proof (induction ids arbitrary: s)
  case Nil
  then show ?case by simp
next
  case (Cons i ids)
  obtain t pg where s: "s = (t, pg)" by (cases s)
  show ?case
    using Cons.prems Cons.IH [of "snd (handlePenguinClick P self i s)"]
    by (simp add: s handlePenguinClick_found distinct_Set_add)
qed

lemma handlePenguinClicks_penguinIds:
  "penguinIds (fst (handlePenguinClicks P self ids s)) = penguinIds (fst s)"
proof (induction ids arbitrary: s)
  case Nil
  then show ?case by simp
next
  case (Cons i ids)
  obtain t pg where s: "s = (t, pg)" by (cases s)
  show ?case
    using Cons.IH [of "snd (handlePenguinClick P self i s)"]
    by (simp add: s handlePenguinClick_penguinIds)
qed

lemma handlePenguinClicks_length:
  assumes "foundPenguins (fst s) = []"
  shows "length (foundPenguins (fst (handlePenguinClicks P self ids s))) = card (set ids)"
proof -
  let ?t = "fst (handlePenguinClicks P self ids s)"
  have "distinct (foundPenguins ?t)"
    using assms handlePenguinClicks_distinct [of s P self ids] by simp
  then have "length (foundPenguins ?t) = card (set (foundPenguins ?t))"
    by (simp add: distinct_card)
  also have "set (foundPenguins ?t) = JString ` set ids"
    using assms handlePenguinClicks_found_set [of P self ids s] by simp
  also have "card (JString ` set ids) = card (set ids)"
    by (rule card_image) (simp add: inj_on_def)
  finally show ?thesis .
qed

subsection \<open>The constructor\<close>

lemma loadProgress_page [simp]:
  "element_ids (snd (loadProgress P pg)) = element_ids pg"
  "click_listeners (snd (loadProgress P pg)) = click_listeners pg"
  "timeouts (snd (loadProgress P pg)) = timeouts pg"
  "localStorage (snd (loadProgress P pg)) = localStorage pg"
  "body_nodes (snd (loadProgress P pg)) = body_nodes pg"
  by (simp_all add: loadProgress_def split: sum.splits option.splits)

lemma initPenguin_fields [simp]:
  "foundPenguins (fst (initPenguin self p s)) = foundPenguins (fst s)"
  "penguinIds (fst (initPenguin self p s)) = penguinIds (fst s)"
  "element_ids (snd (initPenguin self p s)) = element_ids (snd s)"
  "timeouts (snd (initPenguin self p s)) = timeouts (snd s)"
  "localStorage (snd (initPenguin self p s)) = localStorage (snd s)"
  "body_nodes (snd (initPenguin self p s)) = body_nodes (snd s)"
  by (simp_all add: initPenguin_def getElementById_def split: prod.splits)

lemma initPenguin_listener_inv:
  "listener_inv self s \<Longrightarrow> listener_inv self (initPenguin self p s)"
  by (cases s) (auto simp: listener_inv_def initPenguin_def getElementById_def)

lemma foldl_preserves:
  assumes "Q s" and "\<And>x s'. Q s' \<Longrightarrow> Q (f s' x)"
  shows "Q (foldl f s xs)"
  using assms(1)
proof (induction xs arbitrary: s)
  case Nil
  then show ?case by simp
next
  case (Cons x xs)
  then show ?case by (simp add: assms(2))
qed

lemma initPenguins_preserves:
  assumes "Q s" and "\<And>p s'. Q s' \<Longrightarrow> Q (initPenguin self p s')"
  shows "Q (initPenguins self s)"
  unfolding initPenguins_def using assms by (rule foldl_preserves)

lemma initPenguins_fields [simp]:
  "foundPenguins (fst (initPenguins self s)) = foundPenguins (fst s)"
  "penguinIds (fst (initPenguins self s)) = penguinIds (fst s)"
  "element_ids (snd (initPenguins self s)) = element_ids (snd s)"
  "timeouts (snd (initPenguins self s)) = timeouts (snd s)"
  "localStorage (snd (initPenguins self s)) = localStorage (snd s)"
  "body_nodes (snd (initPenguins self s)) = body_nodes (snd s)"
proof -
  have "foundPenguins (fst (initPenguins self s)) = foundPenguins (fst s)
      \<and> penguinIds (fst (initPenguins self s)) = penguinIds (fst s)
      \<and> element_ids (snd (initPenguins self s)) = element_ids (snd s)
      \<and> timeouts (snd (initPenguins self s)) = timeouts (snd s)
      \<and> localStorage (snd (initPenguins self s)) = localStorage (snd s)
      \<and> body_nodes (snd (initPenguins self s)) = body_nodes (snd s)"
    by (rule initPenguins_preserves [where Q = "\<lambda>s'. foundPenguins (fst s') = foundPenguins (fst s)
      \<and> penguinIds (fst s') = penguinIds (fst s)
      \<and> element_ids (snd s') = element_ids (snd s)
      \<and> timeouts (snd s') = timeouts (snd s)
      \<and> localStorage (snd s') = localStorage (snd s)
      \<and> body_nodes (snd s') = body_nodes (snd s)"]) simp_all
  then show
    "foundPenguins (fst (initPenguins self s)) = foundPenguins (fst s)"
    "penguinIds (fst (initPenguins self s)) = penguinIds (fst s)"
    "element_ids (snd (initPenguins self s)) = element_ids (snd s)"
    "timeouts (snd (initPenguins self s)) = timeouts (snd s)"
    "localStorage (snd (initPenguins self s)) = localStorage (snd s)"
    "body_nodes (snd (initPenguins self s)) = body_nodes (snd s)"
    by simp_all
qed

lemma new_PenguinTracker_eq:
  "new_PenguinTracker P self pg =
     (let s = initPenguins self
                (\<lparr>penguinIds = [''penguin1'', ''penguin2'', ''penguin3'', ''penguin4'', ''penguin5''],
                  penguinHandlers = {},
                  foundPenguins = fst (loadProgress P pg)\<rparr>, snd (loadProgress P pg))
      in (fst s, updateDisplay (fst s) (snd s)))"
  by (simp add: new_PenguinTracker_def Let_def split: prod.splits)

lemma new_PenguinTracker_fields:
  "foundPenguins (fst (new_PenguinTracker P self pg)) = fst (loadProgress P pg)"
  "penguinIds (fst (new_PenguinTracker P self pg)) =
     [''penguin1'', ''penguin2'', ''penguin3'', ''penguin4'', ''penguin5'']"
  "element_ids (snd (new_PenguinTracker P self pg)) = element_ids pg"
  "timeouts (snd (new_PenguinTracker P self pg)) = timeouts pg"
  "localStorage (snd (new_PenguinTracker P self pg)) = localStorage pg"
  "body_nodes (snd (new_PenguinTracker P self pg)) = body_nodes pg"
  by (simp_all add: new_PenguinTracker_eq Let_def)

lemma updateDisplay_listener_inv:
  "listener_inv self (t, pg) \<Longrightarrow> listener_inv self (t, updateDisplay t pg)"
  by (simp add: listener_inv_def)

lemma new_PenguinTracker_listener_inv:
  assumes "\<forall>p. (p, Penguin_handler self p) \<notin> set (click_listeners pg)"
  shows "listener_inv self (new_PenguinTracker P self pg)"
proof -
  let ?s0 = "(\<lparr>penguinIds = [''penguin1'', ''penguin2'', ''penguin3'', ''penguin4'', ''penguin5''],
               penguinHandlers = {},
               foundPenguins = fst (loadProgress P pg)\<rparr>, snd (loadProgress P pg))"
  have "listener_inv self ?s0"
    using assms by (simp add: listener_inv_def)
  then have "listener_inv self (initPenguins self ?s0)"
    by (rule initPenguins_preserves) (rule initPenguin_listener_inv)
  then have "listener_inv self (fst (initPenguins self ?s0),
               updateDisplay (fst (initPenguins self ?s0)) (snd (initPenguins self ?s0)))"
    using updateDisplay_listener_inv [of self "fst (initPenguins self ?s0)" "snd (initPenguins self ?s0)"]
    by simp
  then show ?thesis
    by (simp add: new_PenguinTracker_eq Let_def)
qed

subsection \<open>Clicks delivered through the listeners\<close>

lemma click_penguin_undelivered:
  "(p, Penguin_handler self p) \<notin> set (click_listeners (snd s)) \<Longrightarrow>
     click_penguin P self p s = (None, s)"
  by (simp add: click_penguin_def)

lemma click_penguin_delivered:
  "(p, Penguin_handler self p) \<in> set (click_listeners (snd s)) \<Longrightarrow>
     click_penguin P self p s = handlePenguinClick P self p s"
  by (simp add: click_penguin_def)

lemma click_penguin_listener_inv:
  assumes "listener_inv self s"
  shows "listener_inv self (snd (click_penguin P self p s))"
proof (cases "(p, Penguin_handler self p) \<in> set (click_listeners (snd s))")
  case False
  then show ?thesis using assms by (simp add: click_penguin_undelivered)
next
  case True
  obtain t pg where s: "s = (t, pg)" by (cases s)
  from True assms have p: "p \<in> penguinHandlers t" "p \<in> element_ids pg"
    by (auto simp: listener_inv_def s)
  have "listener_inv self (snd (handlePenguinClick P self p (t, pg)))"
    unfolding listener_inv_def
  proof (intro allI impI)
    fix q
    assume q: "(q, Penguin_handler self q)
                 \<in> set (click_listeners (snd (snd (handlePenguinClick P self p (t, pg)))))"
    then have qp: "q \<noteq> p" and qin: "(q, Penguin_handler self q) \<in> set (click_listeners pg)"
      using p by (auto simp: handlePenguinClick_listeners)
    from qin assms have "q \<in> penguinHandlers t" "JString q \<notin> set (foundPenguins t)"
      "q \<in> element_ids pg"
      by (auto simp: listener_inv_def s)
    then show "q \<in> penguinHandlers (fst (snd (handlePenguinClick P self p (t, pg))))
             \<and> JString q \<notin> set (foundPenguins (fst (snd (handlePenguinClick P self p (t, pg)))))
             \<and> q \<in> element_ids (snd (snd (handlePenguinClick P self p (t, pg))))"
      using qp p handlePenguinClick_element_ids [of pg P self p t]
      by (auto simp: handlePenguinClick_handlers handlePenguinClick_found set_Set_add)
  qed
  then show ?thesis using True by (simp add: click_penguin_delivered s)
qed

lemma click_penguins_listener_inv:
  "listener_inv self s \<Longrightarrow> listener_inv self (click_penguins P self ids s)"
  by (induction ids arbitrary: s) (simp_all add: click_penguin_listener_inv)

lemma click_penguins_append:
  "click_penguins P self (ids @ [p]) s = snd (click_penguin P self p (click_penguins P self ids s))"
  by (induction ids arbitrary: s) simp_all

lemma click_penguin_penguinIds:
  "penguinIds (fst (snd (click_penguin P self p s))) = penguinIds (fst s)"
  by (cases s) (simp add: click_penguin_def handlePenguinClick_penguinIds)

lemma click_penguins_penguinIds:
  "penguinIds (fst (click_penguins P self ids s)) = penguinIds (fst s)"
  by (induction ids arbitrary: s) (simp_all add: click_penguin_penguinIds)

text \<open>A delivered click finds a penguin that was not in the set: the size grows by one.\<close>

lemma click_penguin_reveals:
  assumes "listener_inv self s"
  shows "reveals (snd (snd (click_penguin P self p s))) =
           reveals (snd s) +
             (if (p, Penguin_handler self p) \<in> set (click_listeners (snd s))
                 \<and> Suc (length (foundPenguins (fst s))) = length (penguinIds (fst s))
              then 1 else 0)"
    and "length (foundPenguins (fst (snd (click_penguin P self p s)))) =
           (if (p, Penguin_handler self p) \<in> set (click_listeners (snd s))
            then Suc (length (foundPenguins (fst s))) else length (foundPenguins (fst s)))"
    and "fst (click_penguin P self p s) = None"
proof -
  obtain t pg where s: "s = (t, pg)" by (cases s)
  show "reveals (snd (snd (click_penguin P self p s))) =
           reveals (snd s) +
             (if (p, Penguin_handler self p) \<in> set (click_listeners (snd s))
                 \<and> Suc (length (foundPenguins (fst s))) = length (penguinIds (fst s))
              then 1 else 0)"
    using assms
    by (auto simp: s click_penguin_def handlePenguinClick_reveals listener_inv_def length_Set_add)
  show "length (foundPenguins (fst (snd (click_penguin P self p s)))) =
           (if (p, Penguin_handler self p) \<in> set (click_listeners (snd s))
            then Suc (length (foundPenguins (fst s))) else length (foundPenguins (fst s)))"
    using assms
    by (auto simp: s click_penguin_def handlePenguinClick_found listener_inv_def length_Set_add)
  show "fst (click_penguin P self p s) = None"
    using assms
    by (auto simp: s click_penguin_def handlePenguinClick_error listener_inv_def)
qed

lemma click_penguins_reveals_bound:
  assumes "listener_inv self s"
  shows "reveals (snd (click_penguins P self ids s)) \<le> reveals (snd s) + 1
       \<and> (reveals (snd (click_penguins P self ids s)) = reveals (snd s) + 1 \<longrightarrow>
            length (penguinIds (fst s)) \<le> length (foundPenguins (fst (click_penguins P self ids s)))
            \<and> length (foundPenguins (fst s)) < length (penguinIds (fst s)))
       \<and> length (foundPenguins (fst s)) \<le> length (foundPenguins (fst (click_penguins P self ids s)))"
proof (induction ids rule: rev_induct)
  case Nil
  then show ?case by simp
next
  case (snoc p ids)
  let ?s = "click_penguins P self ids s"
  have inv: "listener_inv self ?s"
    using assms by (rule click_penguins_listener_inv)
  show ?case
    using snoc click_penguin_reveals(1,2) [OF inv, of P p]
    by (auto simp: click_penguins_append click_penguins_penguinIds)
qed

subsection \<open>Projections of a call\<close>

lemma hpc_found:
  "foundPenguins (fst (snd (handlePenguinClick P self i s))) =
     Set_add (JString i) (foundPenguins (fst s))"
  by (cases s) (simp add: handlePenguinClick_found)

lemma hpc_penguinIds:
  "penguinIds (fst (snd (handlePenguinClick P self i s))) = penguinIds (fst s)"
  by (cases s) (simp add: handlePenguinClick_penguinIds)

lemma hpc_error:
  "fst (handlePenguinClick P self i s) =
     (if i \<in> element_ids (snd s) then None else Some TypeError)"
  by (cases s) (simp add: handlePenguinClick_error)

lemma hpc_reveals:
  "reveals (snd (snd (handlePenguinClick P self i s))) =
     reveals (snd s) +
       (if i \<in> element_ids (snd s)
           \<and> length (Set_add (JString i) (foundPenguins (fst s))) = length (penguinIds (fst s))
        then 1 else 0)"
  by (cases s) (simp add: handlePenguinClick_reveals)

lemma hpc_element_ids:
  "element_ids (snd (snd (handlePenguinClick P self i s))) =
     (if i \<in> element_ids (snd s) then insert ''penguinFeedbackStyle'' (element_ids (snd s))
      else element_ids (snd s))"
  by (cases s, cases "i \<in> element_ids (snd s)")
     (simp_all add: handlePenguinClick_missing handlePenguinClick_present Let_def)

lemma hpc_body_nodes:
  "body_nodes (snd (snd (handlePenguinClick P self i s))) =
     (if i \<in> element_ids (snd s) then body_nodes (snd s) @ [Notification]
      else body_nodes (snd s))"
  by (cases s, cases "i \<in> element_ids (snd s)")
     (simp_all add: handlePenguinClick_missing handlePenguinClick_present Let_def)

lemma hpc_console:
  "console (snd (snd (handlePenguinClick P self i s))) =
     console (saveProgress P ((fst s)\<lparr>foundPenguins := Set_add (JString i) (foundPenguins (fst s))\<rparr>) (snd s))
       @ [Log_found i (length (Set_add (JString i) (foundPenguins (fst s))))]
       @ (if i \<in> element_ids (snd s)
          then [Log_checking (length (Set_add (JString i) (foundPenguins (fst s))))
                  (length (penguinIds (fst s)))]
               @ (if length (Set_add (JString i) (foundPenguins (fst s))) = length (penguinIds (fst s))
                  then [Log_all_found] else [])
          else [])"
  by (cases s, cases "i \<in> element_ids (snd s)")
     (simp_all add: handlePenguinClick_missing handlePenguinClick_present Let_def isComplete_def)

lemma hpc_localStorage:
  "localStorage (snd (snd (handlePenguinClick P self i s))) =
     localStorage (saveProgress P
       ((fst s)\<lparr>foundPenguins := Set_add (JString i) (foundPenguins (fst s))\<rparr>) (snd s))"
  by (cases s, cases "i \<in> element_ids (snd s)")
     (simp_all add: handlePenguinClick_missing handlePenguinClick_present Let_def)

lemma saveProgress_written:
  assumes "accessible (localStorage pg)"
    and "length (JSON_stringify P (foundPenguins t)) \<le> quota (localStorage pg)"
  shows "items (localStorage (saveProgress P t pg)) ''penguinsFound'' =
           Some (JSON_stringify P (foundPenguins t))"
    and "accessible (localStorage (saveProgress P t pg))"
  using assms by (simp_all add: saveProgress_def setItem_def)

subsection \<open>The example page\<close>

lemma loadProgress_example: "fst (loadProgress P example_page) = []"
  by (simp add: loadProgress_def loadProgress_try_def getItem_def example_page_def
      empty_storage_def)

lemma example_page_fields:
  "element_ids example_page =
     {''penguin1'', ''penguin2'', ''penguin3'', ''penguin4'', ''penguin5'',
      ''penguinCount'', ''penguinCounter'', ''secretSection'',
      ''btnYes'', ''btnNo'', ''introSection'', ''mainContent''}"
  "timeouts example_page = []"
  "click_listeners example_page = []"
  "body_nodes example_page = []"
  "console example_page = []"
  "localStorage example_page = empty_storage"
  by (simp_all add: example_page_def)

lemma new_PenguinTracker_reveals: "reveals (snd (new_PenguinTracker P self pg)) = reveals pg"
  by (simp add: reveals_def new_PenguinTracker_fields)

lemma reveals_example: "reveals example_page = 0"
  by (simp add: reveals_def example_page_fields)

section \<open>The claims about the tracker\<close>

text \<open>
  C5. The count (\<open>this.foundPenguins.size\<close>, which \<open>updateDisplay\<close> shows) after any
  sequence of calls of \<open>handlePenguinClick\<close> on a tracker that started with an empty set is
  the number of distinct identifiers in the sequence, whatever their order and however
  often one is repeated.
\<close>

theorem count_is_number_of_distinct_identifiers:
  assumes "foundPenguins (fst s) = []"
  shows "length (foundPenguins (fst (handlePenguinClicks P self ids s))) = card (set ids)"
  using assms by (rule handlePenguinClicks_length)

theorem count_is_number_of_distinct_identifiers_witness:
  "length (foundPenguins (fst (handlePenguinClicks json_fragment 0
      [''penguin1'', ''penguin2'', ''penguin1'']
      (new_PenguinTracker json_fragment 0 example_page)))) = 2"
proof -
  have fresh: "foundPenguins (fst (new_PenguinTracker json_fragment 0 example_page)) = []"
    by (simp add: new_PenguinTracker_fields loadProgress_example)
  have two: "card (set [''penguin1'', ''penguin2'', ''penguin1'']) = 2"
    unfolding card_set by simp
  show ?thesis
    by (simp only: count_is_number_of_distinct_identifiers [OF fresh] two)
qed

lemma loadProgress_stored_bogus:
  "fst (loadProgress json_fragment
     (example_page\<lparr>localStorage := empty_storage\<lparr>items :=
        (\<lambda>k. if k = ''penguinsFound''
              then Some [CHR ''['', CHR 0x22, CHR ''b'', CHR ''o'', CHR ''g'', CHR ''u'', CHR ''s'',
                         CHR 0x22, CHR '']'']
              else None)\<rparr>\<rparr>))
   = [JString ''bogus'']"
  by (simp add: loadProgress_def loadProgress_try_def getItem_def new_Set_def empty_storage_def
      json_fragment_def fragment_parse_def parse_tokens_def cons_token_def Set_of_def Set_add_def)

text \<open>
  C4. The claim is that after any sequence of calls the completion test holds exactly
  when all five penguins have been found. The test compares the size of the set with 5
  and the set takes any identifier: it holds with \<open>penguin5\<close> never found, after a call
  for \<open>secretSection\<close> and four penguins, and after four penguins on a tracker that
  loaded the stored list \<open>["bogus"]\<close>.
\<close>

theorem isComplete_without_the_fifth_penguin:
  "isComplete (fst (handlePenguinClicks json_fragment 0
      [''secretSection'', ''penguin1'', ''penguin2'', ''penguin3'', ''penguin4'']
      (new_PenguinTracker json_fragment 0 example_page)))
   \<and> JString ''penguin5'' \<notin> set (foundPenguins (fst (handlePenguinClicks json_fragment 0
      [''secretSection'', ''penguin1'', ''penguin2'', ''penguin3'', ''penguin4'']
      (new_PenguinTracker json_fragment 0 example_page))))
   \<and> isComplete (fst (handlePenguinClicks json_fragment 0
      [''penguin1'', ''penguin2'', ''penguin3'', ''penguin4'']
      (new_PenguinTracker json_fragment 0
        (example_page\<lparr>localStorage := empty_storage\<lparr>items :=
          (\<lambda>k. if k = ''penguinsFound''
                then Some [CHR ''['', CHR 0x22, CHR ''b'', CHR ''o'', CHR ''g'', CHR ''u'', CHR ''s'',
                           CHR 0x22, CHR '']'']
                else None)\<rparr>\<rparr>))))
   \<and> JString ''penguin5'' \<notin> set (foundPenguins (fst (handlePenguinClicks json_fragment 0
      [''penguin1'', ''penguin2'', ''penguin3'', ''penguin4'']
      (new_PenguinTracker json_fragment 0
        (example_page\<lparr>localStorage := empty_storage\<lparr>items :=
          (\<lambda>k. if k = ''penguinsFound''
                then Some [CHR ''['', CHR 0x22, CHR ''b'', CHR ''o'', CHR ''g'', CHR ''u'', CHR ''s'',
                           CHR 0x22, CHR '']'']
                else None)\<rparr>\<rparr>)))))"
  by (simp add: isComplete_def hpc_found hpc_penguinIds new_PenguinTracker_fields
      loadProgress_example loadProgress_stored_bogus Set_add_def)

text \<open>
  C4, as the code has it. On a tracker that loaded nothing, after any sequence of calls
  with identifiers of the five penguins, the completion test of \<open>checkForCompletion\<close>
  holds if and only if each of the five has been found at least once.
\<close>

theorem isComplete_iff_all_five_found:
  assumes "fst (loadProgress P pg) = []"
    and "set ids \<subseteq> {''penguin1'', ''penguin2'', ''penguin3'', ''penguin4'', ''penguin5''}"
  shows "isComplete (fst (handlePenguinClicks P self ids (new_PenguinTracker P self pg)))
           \<longleftrightarrow> {''penguin1'', ''penguin2'', ''penguin3'', ''penguin4'', ''penguin5''} \<subseteq> set ids"
proof -
  let ?U = "{''penguin1'', ''penguin2'', ''penguin3'', ''penguin4'', ''penguin5''}"
  have len: "length (foundPenguins (fst (handlePenguinClicks P self ids (new_PenguinTracker P self pg))))
               = card (set ids)"
    using assms(1) by (intro handlePenguinClicks_length) (simp add: new_PenguinTracker_fields)
  have U: "card ?U = 5" by simp
  have "card (set ids) = length [''penguin1'', ''penguin2'', ''penguin3'', ''penguin4'', ''penguin5'']
          \<longleftrightarrow> ?U \<subseteq> set ids"
  proof
    assume "card (set ids) = length [''penguin1'', ''penguin2'', ''penguin3'', ''penguin4'', ''penguin5'']"
    with U assms(2) have "set ids = ?U"
      by (intro card_subset_eq) simp_all
    then show "?U \<subseteq> set ids" by simp
  next
    assume "?U \<subseteq> set ids"
    with assms(2) have "set ids = ?U" by blast
    with U show "card (set ids)
        = length [''penguin1'', ''penguin2'', ''penguin3'', ''penguin4'', ''penguin5'']" by simp
  qed
  then show ?thesis
    by (simp add: isComplete_def len handlePenguinClicks_penguinIds new_PenguinTracker_fields)
qed

theorem isComplete_iff_all_five_found_witness:
  "isComplete (fst (handlePenguinClicks json_fragment 0
      [''penguin3'', ''penguin1'', ''penguin2'', ''penguin5'', ''penguin1'', ''penguin4'']
      (new_PenguinTracker json_fragment 0 example_page)))
   \<and> \<not> isComplete (fst (handlePenguinClicks json_fragment 0
      [''penguin3'', ''penguin1'', ''penguin2'', ''penguin5'', ''penguin1'']
      (new_PenguinTracker json_fragment 0 example_page)))"
  using isComplete_iff_all_five_found
    [of json_fragment example_page
        "[''penguin3'', ''penguin1'', ''penguin2'', ''penguin5'', ''penguin1'', ''penguin4'']" 0]
    isComplete_iff_all_five_found
    [of json_fragment example_page
        "[''penguin3'', ''penguin1'', ''penguin2'', ''penguin5'', ''penguin1'']" 0]
  by (simp add: loadProgress_example)

subsection \<open>Clicks and calls on the example page\<close>

lemma new_PenguinTracker_example_fresh:
  "\<forall>p. (p, Penguin_handler self p) \<notin> set (click_listeners example_page)"
  by (simp add: example_page_fields)

text \<open>
  C1. The claim is that the reveal is signalled exactly once whatever calls follow.
  \<open>handlePenguinClick\<close> has no test for a penguin that is already found: called again
  on a complete set it runs \<open>checkForCompletion\<close> again, which schedules the reveal again.
\<close>

theorem reveal_scheduled_twice:
  "reveals (snd (handlePenguinClicks json_fragment 0
      [''penguin1'', ''penguin2'', ''penguin3'', ''penguin4'', ''penguin5'']
      (new_PenguinTracker json_fragment 0 example_page))) = 1
   \<and> reveals (snd (handlePenguinClicks json_fragment 0
      [''penguin1'', ''penguin2'', ''penguin3'', ''penguin4'', ''penguin5'', ''penguin1'']
      (new_PenguinTracker json_fragment 0 example_page))) = 2"
  by (simp add: hpc_reveals hpc_found hpc_penguinIds hpc_element_ids new_PenguinTracker_fields
      new_PenguinTracker_reveals reveals_example example_page_fields loadProgress_example
      Set_add_def)

text \<open>
  C1, as the code has it. What keeps the reveal unique is the listener: the first click on
  a penguin removes it, so no click is delivered for a penguin that is in the set. For
  clicks delivered through the listeners of a tracker, the reveal is scheduled at most
  once, and a click schedules it exactly when it is delivered and brings the size of the
  set to 5.
\<close>

theorem reveal_scheduled_at_most_once:
  assumes "\<forall>p. (p, Penguin_handler self p) \<notin> set (click_listeners pg)"
  shows "reveals (snd (click_penguins P self ids (new_PenguinTracker P self pg))) \<le> reveals pg + 1
       \<and> reveals (snd (click_penguins P self (ids @ [p]) (new_PenguinTracker P self pg))) =
           reveals (snd (click_penguins P self ids (new_PenguinTracker P self pg))) +
             (if (p, Penguin_handler self p)
                   \<in> set (click_listeners (snd (click_penguins P self ids (new_PenguinTracker P self pg))))
                 \<and> length (foundPenguins
                       (fst (click_penguins P self (ids @ [p]) (new_PenguinTracker P self pg)))) = 5
              then 1 else 0)"
proof -
  let ?init = "new_PenguinTracker P self pg"
  let ?s = "click_penguins P self ids ?init"
  have inv0: "listener_inv self ?init"
    using assms by (rule new_PenguinTracker_listener_inv)
  have inv: "listener_inv self ?s"
    using inv0 by (rule click_penguins_listener_inv)
  have "reveals (snd ?s) \<le> reveals (snd ?init) + 1"
    using click_penguins_reveals_bound [OF inv0, of P ids] by simp
  then have bound: "reveals (snd ?s) \<le> reveals pg + 1"
    by (simp add: new_PenguinTracker_reveals)
  have ids5: "length (penguinIds (fst ?s)) = 5"
    by (simp add: click_penguins_penguinIds new_PenguinTracker_fields)
  have step: "reveals (snd (click_penguins P self (ids @ [p]) ?init)) =
           reveals (snd ?s) +
             (if (p, Penguin_handler self p) \<in> set (click_listeners (snd ?s))
                 \<and> length (foundPenguins (fst (click_penguins P self (ids @ [p]) ?init))) = 5
              then 1 else 0)"
    using click_penguin_reveals(1,2) [OF inv, of P p] ids5
    by (auto simp: click_penguins_append)
  from bound step show ?thesis by simp
qed

theorem reveal_scheduled_at_most_once_witness:
  "reveals (snd (click_penguins json_fragment 0
      [''penguin1'', ''penguin2'', ''penguin3'', ''penguin4'', ''penguin5'', ''penguin1'']
      (new_PenguinTracker json_fragment 0 example_page))) \<le> 1"
  using reveal_scheduled_at_most_once [OF new_PenguinTracker_example_fresh,
      where P = json_fragment and self = 0
        and ids = "[''penguin1'', ''penguin2'', ''penguin3'', ''penguin4'', ''penguin5'', ''penguin1'']"]
  by (simp add: reveals_example)

text \<open>
  C2. The claim is that a call for an identifier already in the set does nothing.
  The second call for \<open>penguin1\<close> shows the feedback notification a second time.
\<close>

theorem found_penguin_called_again_has_effects:
  "JString ''penguin1'' \<in> set (foundPenguins (fst (snd (handlePenguinClick json_fragment 0 ''penguin1''
        (new_PenguinTracker json_fragment 0 example_page)))))
   \<and> body_nodes (snd (snd (handlePenguinClick json_fragment 0 ''penguin1''
        (new_PenguinTracker json_fragment 0 example_page)))) = [Notification]
   \<and> body_nodes (snd (snd (handlePenguinClick json_fragment 0 ''penguin1''
        (snd (handlePenguinClick json_fragment 0 ''penguin1''
          (new_PenguinTracker json_fragment 0 example_page)))))) = [Notification, Notification]"
  by (simp add: hpc_found hpc_body_nodes hpc_element_ids new_PenguinTracker_fields
      example_page_fields loadProgress_example Set_add_def)

text \<open>
  C2, as the code has it. A click on a penguin that is in the set is not delivered (its
  listener is gone) and changes nothing; a direct call of \<open>handlePenguinClick\<close> for it
  leaves the set, and so the count, as they were.
\<close>

theorem found_penguin_click_is_not_delivered:
  assumes "\<forall>q. (q, Penguin_handler self q) \<notin> set (click_listeners pg)"
    and "JString p \<in> set (foundPenguins (fst (click_penguins P self ids (new_PenguinTracker P self pg))))"
  shows "click_penguin P self p (click_penguins P self ids (new_PenguinTracker P self pg)) =
           (None, click_penguins P self ids (new_PenguinTracker P self pg))
       \<and> foundPenguins (fst (snd (handlePenguinClick P self p
             (click_penguins P self ids (new_PenguinTracker P self pg))))) =
           foundPenguins (fst (click_penguins P self ids (new_PenguinTracker P self pg)))"
proof -
  let ?s = "click_penguins P self ids (new_PenguinTracker P self pg)"
  have "listener_inv self (new_PenguinTracker P self pg)"
    using assms(1) by (rule new_PenguinTracker_listener_inv)
  then have inv: "listener_inv self ?s"
    by (rule click_penguins_listener_inv)
  with assms(2) have "(p, Penguin_handler self p) \<notin> set (click_listeners (snd ?s))"
    by (auto simp: listener_inv_def)
  then have "click_penguin P self p ?s = (None, ?s)"
    by (rule click_penguin_undelivered)
  moreover have "foundPenguins (fst (snd (handlePenguinClick P self p ?s))) = foundPenguins (fst ?s)"
    using assms(2) by (simp add: hpc_found Set_add_def)
  ultimately show ?thesis by simp
qed


lemma new_PenguinTracker_example_listeners:
  "click_listeners (snd (new_PenguinTracker P 0 example_page)) =
     [(''penguin1'', Penguin_handler 0 ''penguin1''), (''penguin2'', Penguin_handler 0 ''penguin2''),
      (''penguin3'', Penguin_handler 0 ''penguin3''), (''penguin4'', Penguin_handler 0 ''penguin4''),
      (''penguin5'', Penguin_handler 0 ''penguin5'')]"
  by (simp add: new_PenguinTracker_eq Let_def initPenguins_def initPenguin_def getElementById_def
      loadProgress_example example_page_fields)

theorem found_penguin_click_is_not_delivered_witness:
  "click_penguin json_fragment 0 ''penguin1''
     (click_penguins json_fragment 0 [''penguin1''] (new_PenguinTracker json_fragment 0 example_page)) =
   (None, click_penguins json_fragment 0 [''penguin1''] (new_PenguinTracker json_fragment 0 example_page))"
proof -
  have found: "JString ''penguin1'' \<in> set (foundPenguins (fst (click_penguins json_fragment 0
      [''penguin1''] (new_PenguinTracker json_fragment 0 example_page))))"
    by (simp add: click_penguin_def new_PenguinTracker_example_listeners hpc_found set_Set_add)
  show ?thesis
    using found_penguin_click_is_not_delivered [OF new_PenguinTracker_example_fresh found]
    by simp
qed

text \<open>
  C3. The claim is that an identifier outside the five is rejected and the set stays as
  it was. \<open>secretSection\<close> is not a penguin, the call returns normally and the set holds it.
\<close>

theorem identifier_outside_the_universe_is_inserted:
  "''secretSection'' \<notin> set (penguinIds (fst (new_PenguinTracker json_fragment 0 example_page)))
   \<and> fst (handlePenguinClick json_fragment 0 ''secretSection''
        (new_PenguinTracker json_fragment 0 example_page)) = None
   \<and> foundPenguins (fst (snd (handlePenguinClick json_fragment 0 ''secretSection''
        (new_PenguinTracker json_fragment 0 example_page)))) = [JString ''secretSection'']"
  by (simp add: hpc_error hpc_found new_PenguinTracker_fields example_page_fields
      loadProgress_example Set_add_def)

text \<open>
  C3, as the code has it. \<open>handlePenguinClick\<close> does not look at \<open>penguinIds\<close>: an
  identifier outside it is added to the set and saved before anything else, and the call
  throws (a TypeError, from the celebration effect on \<open>null\<close>) exactly when the document
  has no element with that id.
\<close>

theorem handlePenguinClick_does_not_check_the_identifier:
  assumes "penguinId \<notin> set (penguinIds (fst s))"
  shows "foundPenguins (fst (snd (handlePenguinClick P self penguinId s))) =
           Set_add (JString penguinId) (foundPenguins (fst s))
       \<and> fst (handlePenguinClick P self penguinId s) =
           (if penguinId \<in> element_ids (snd s) then None else Some TypeError)
       \<and> (accessible (localStorage (snd s))
            \<and> length (JSON_stringify P (Set_add (JString penguinId) (foundPenguins (fst s))))
                 \<le> quota (localStorage (snd s))
          \<longrightarrow> items (localStorage (snd (snd (handlePenguinClick P self penguinId s)))) ''penguinsFound'' =
                Some (JSON_stringify P (Set_add (JString penguinId) (foundPenguins (fst s)))))"
  by (simp add: hpc_found hpc_error hpc_localStorage saveProgress_written)

theorem handlePenguinClick_does_not_check_the_identifier_witness:
  "foundPenguins (fst (snd (handlePenguinClick json_fragment 0 ''bogus''
        (new_PenguinTracker json_fragment 0 example_page)))) = [JString ''bogus'']
   \<and> fst (handlePenguinClick json_fragment 0 ''bogus''
        (new_PenguinTracker json_fragment 0 example_page)) = Some TypeError
   \<and> items (localStorage (snd (snd (handlePenguinClick json_fragment 0 ''bogus''
        (new_PenguinTracker json_fragment 0 example_page))))) ''penguinsFound'' =
        Some (stringify_array [JString ''bogus''])"
proof -
  have out: "''bogus'' \<notin> set (penguinIds (fst (new_PenguinTracker json_fragment 0 example_page)))"
    by (simp add: new_PenguinTracker_fields)
  show ?thesis
    using handlePenguinClick_does_not_check_the_identifier [OF out, where P = json_fragment and self = 0]
    by (simp add: new_PenguinTracker_fields example_page_fields loadProgress_example Set_add_def
        empty_storage_def json_fragment_def stringify_array_def quote_string_def escape_char_def)
qed

section \<open>Properties of loadProgress and saveProgress\<close>

subsection \<open>Reading back what was written\<close>

lemma escape_char_plain:
  "c \<noteq> CHR 0x22 \<Longrightarrow> c \<noteq> CHR 0x5C \<Longrightarrow> 32 \<le> (of_char c :: nat) \<Longrightarrow> escape_char c = [c]"
  by (auto simp: escape_char_def)

lemma escape_plain: "plain s \<Longrightarrow> concat (map escape_char s) = s"
  by (induction s) (simp_all add: plain_def escape_char_plain)

lemma tokens_in_string:
  "plain s \<Longrightarrow>
     tokens (Some acc) (s @ CHR 0x22 # rest) =
       cons_token (T_atom (Atom_string (rev acc @ s))) (tokens None rest)"
proof (induction s arbitrary: acc)
  case Nil
  then show ?case by simp
next
  case (Cons c s)
  from Cons.prems have c: "c \<noteq> CHR 0x22" "c \<noteq> CHR 0x5C" "\<not> (of_char c :: nat) < 32"
    and s: "plain s"
    by (auto simp: plain_def)
  show ?case
    using c Cons.IH [OF s, of "c # acc"] by simp
qed

lemma tokens_quote_string:
  "plain s \<Longrightarrow>
     tokens None (quote_string s @ rest) = cons_token (T_atom (Atom_string s)) (tokens None rest)"
  using tokens_in_string [of s "[]" rest]
  by (simp add: quote_string_def escape_plain)

lemma tokens_items:
  "ss \<noteq> [] \<Longrightarrow> \<forall>s \<in> set ss. plain s \<Longrightarrow>
     tokens None (join_commas (map quote_string ss) @ '']'') = Some (item_tokens ss)"
proof (induction ss rule: item_tokens.induct)
  case 1
  then show ?case by simp
next
  case (2 x)
  then show ?case
    using tokens_quote_string [of x "'']''"] by (simp add: cons_token_def)
next
  case (3 x y xs)
  then show ?case
    using tokens_quote_string [of x "'','' @ join_commas (map quote_string (y # xs)) @ '']''"]
    by (simp add: cons_token_def)
qed

lemma array_items_item_tokens:
  "ss \<noteq> [] \<Longrightarrow> array_items (item_tokens ss) = Some (map Atom_string ss)"
  by (induction ss rule: item_tokens.induct) simp_all

lemma item_tokens_not_close: "ss \<noteq> [] \<Longrightarrow> item_tokens ss \<noteq> [T_close]"
  by (cases ss rule: item_tokens.cases) simp_all

lemma fragment_parse_stringify:
  assumes "\<forall>s \<in> set ss. plain s"
  shows "fragment_parse (stringify_array (map JString ss)) = Some (JOther (Array (map Atom_string ss)))"
proof (cases "ss = []")
  case True
  then show ?thesis
    by (simp add: fragment_parse_def stringify_array_def cons_token_def parse_tokens_def)
next
  case False
  have "stringify_value \<circ> JString = quote_string"
    by (rule ext) simp
  then have "tokens None (stringify_array (map JString ss)) = Some (T_open # item_tokens ss)"
    using tokens_items [OF False assms]
    by (simp add: stringify_array_def cons_token_def)
  moreover have "parse_tokens (T_open # item_tokens ss) = Some (JOther (Array (map Atom_string ss)))"
    using array_items_item_tokens [OF False] item_tokens_not_close [OF False]
    by (cases "item_tokens ss") (auto simp: parse_tokens_def split: list.splits token.splits)
  ultimately show ?thesis
    by (simp add: fragment_parse_def)
qed


lemma foldl_Set_add_distinct:
  "distinct (acc @ vs) \<Longrightarrow> foldl (\<lambda>s v. Set_add v s) acc vs = acc @ vs"
proof (induction vs arbitrary: acc)
  case Nil
  then show ?case by simp
next
  case (Cons v vs)
  from Cons.prems have "Set_add v acc = acc @ [v]" "distinct ((acc @ [v]) @ vs)"
    by (auto simp: Set_add_def)
  then show ?case
    using Cons.IH [of "acc @ [v]"] by simp
qed

lemma Set_of_distinct: "distinct vs \<Longrightarrow> Set_of vs = vs"
  using foldl_Set_add_distinct [of "[]" vs] by (simp add: Set_of_def)

lemma loadProgress_try_cases:
  "loadProgress_try P st =
     (if \<not> accessible st then Inl SecurityError
      else case items st ''penguinsFound'' of
             None \<Rightarrow> Inr None
           | Some saved \<Rightarrow>
               if saved = [] then Inr None
               else (case JSON_parse P saved of
                       None \<Rightarrow> Inl SyntaxError
                     | Some (JString s) \<Rightarrow> Inr (Some (Set_of (map (\<lambda>c. JString [c]) s)))
                     | Some (JOther x) \<Rightarrow>
                         (case iterable_elements P x of
                            None \<Rightarrow> Inl TypeError
                          | Some vs \<Rightarrow> Inr (Some (Set_of vs)))))"
  by (simp add: loadProgress_try_def getItem_def new_Set_def split: option.splits jsval.splits)

lemma save_then_load:
  assumes "accessible (localStorage pg)"
    and "length (JSON_stringify P (foundPenguins t)) \<le> quota (localStorage pg)"
    and "JSON_stringify P (foundPenguins t) \<noteq> []"
    and "JSON_parse P (JSON_stringify P (foundPenguins t)) = Some (JOther a)"
    and "iterable_elements P a = Some (foundPenguins t)"
    and "distinct (foundPenguins t)"
  shows "fst (loadProgress P (saveProgress P t pg)) = foundPenguins t"
  using assms
  by (simp add: loadProgress_def loadProgress_try_cases saveProgress_written Set_of_distinct)

lemma loadProgress_fst:
  "fst (loadProgress P pg) =
     (if \<not> accessible (localStorage pg) then []
      else case items (localStorage pg) ''penguinsFound'' of
             None \<Rightarrow> []
           | Some saved \<Rightarrow>
               if saved = [] then []
               else (case JSON_parse P saved of
                       None \<Rightarrow> []
                     | Some (JString s) \<Rightarrow> Set_of (map (\<lambda>c. JString [c]) s)
                     | Some (JOther x) \<Rightarrow>
                         (case iterable_elements P x of
                            None \<Rightarrow> []
                          | Some vs \<Rightarrow> Set_of vs)))"
  by (simp add: loadProgress_def loadProgress_try_cases split: option.splits jsval.splits)

lemma loadProgress_snd:
  "(case loadProgress_try P (localStorage pg) of
      Inl e \<Rightarrow> loadProgress P pg = ([], console_out (Warn_load e) pg)
    | Inr r \<Rightarrow> snd (loadProgress P pg) = pg)"
  by (simp add: loadProgress_def split: sum.splits option.splits)

text \<open>
  C6. The claim is that \<open>loadProgress\<close> returns the empty set for every stored value
  that is malformed. A stored JSON string is not a list of identifiers, and
  \<open>new Set\<close> iterates it: the result holds its characters.
\<close>

theorem loadProgress_of_a_JSON_string:
  "fst (loadProgress json_fragment
     (example_page\<lparr>localStorage := empty_storage\<lparr>items :=
        (\<lambda>k. if k = ''penguinsFound'' then Some [CHR 0x22, CHR ''a'', CHR ''b'', CHR 0x22] else None)\<rparr>\<rparr>))
   = [JString ''a'', JString ''b'']"
  by (simp add: loadProgress_def loadProgress_try_cases empty_storage_def json_fragment_def
      fragment_parse_def parse_tokens_def cons_token_def Set_of_def Set_add_def)

text \<open>
  C6, as the code has it. \<open>loadProgress\<close> never throws: an exception of the \<open>try\<close> block
  is logged and the result is the empty set. The result is empty when the storage is
  inaccessible, the entry is absent or the empty string, the text is not JSON, or the
  parsed value is \<open>null\<close> or not iterable; for a parsed array it is the set of its
  elements, whatever they are, and for a parsed string the set of its characters.
\<close>

theorem loadProgress_result:
  "fst (loadProgress P pg) =
     (if \<not> accessible (localStorage pg) then []
      else case items (localStorage pg) ''penguinsFound'' of
             None \<Rightarrow> []
           | Some saved \<Rightarrow>
               if saved = [] then []
               else (case JSON_parse P saved of
                       None \<Rightarrow> []
                     | Some (JString s) \<Rightarrow> Set_of (map (\<lambda>c. JString [c]) s)
                     | Some (JOther x) \<Rightarrow>
                         (case iterable_elements P x of
                            None \<Rightarrow> []
                          | Some vs \<Rightarrow> Set_of vs)))
   \<and> (case loadProgress_try P (localStorage pg) of
         Inl e \<Rightarrow> loadProgress P pg = ([], console_out (Warn_load e) pg)
       | Inr r \<Rightarrow> snd (loadProgress P pg) = pg)"
  by (rule conjI [OF loadProgress_fst loadProgress_snd])

theorem loadProgress_result_witness:
  "fst (loadProgress json_fragment
     (example_page\<lparr>localStorage := empty_storage\<lparr>items :=
        (\<lambda>k. if k = ''penguinsFound''
              then Some (stringify_array [JString ''penguin2'', JString ''penguin1'']) else None)\<rparr>\<rparr>))
   = [JString ''penguin2'', JString ''penguin1'']
   \<and> fst (loadProgress json_fragment
       (example_page\<lparr>localStorage := empty_storage\<lparr>items :=
          (\<lambda>k. if k = ''penguinsFound'' then Some ''not json'' else None)\<rparr>\<rparr>)) = []
   \<and> fst (loadProgress json_fragment
       (example_page\<lparr>localStorage := empty_storage\<lparr>accessible := False\<rparr>\<rparr>)) = []"
proof -
  have nonempty: "stringify_array [JString ''penguin2'', JString ''penguin1''] \<noteq> []"
    by (simp add: stringify_array_def)
  have read: "fragment_parse (stringify_array (map JString [''penguin2'', ''penguin1'']))
                = Some (JOther (Array (map Atom_string [''penguin2'', ''penguin1''])))"
    by (rule fragment_parse_stringify) (simp add: plain_def)
  have bad: "fragment_parse ''not json'' = None"
    by (simp add: fragment_parse_def cons_token_def)
  show ?thesis
    using nonempty read bad
      loadProgress_result [of json_fragment "example_page\<lparr>localStorage := empty_storage\<lparr>items :=
        (\<lambda>k. if k = ''penguinsFound''
              then Some (stringify_array [JString ''penguin2'', JString ''penguin1'']) else None)\<rparr>\<rparr>"]
      loadProgress_result [of json_fragment "example_page\<lparr>localStorage := empty_storage\<lparr>items :=
          (\<lambda>k. if k = ''penguinsFound'' then Some ''not json'' else None)\<rparr>\<rparr>"]
      loadProgress_result [of json_fragment
        "example_page\<lparr>localStorage := empty_storage\<lparr>accessible := False\<rparr>\<rparr>"]
    by (simp add: empty_storage_def json_fragment_def Set_of_def Set_add_def)
qed

text \<open>
  C7. The claim is that \<open>saveProgress\<close> followed by \<open>loadProgress\<close> gives the set back,
  for every subset of the five. With a storage that is inaccessible the write is dropped
  (its exception is caught) and the load gives the empty set.
\<close>

theorem save_then_load_without_storage:
  "fst (loadProgress json_fragment
     (saveProgress json_fragment
        \<lparr>penguinIds = [''penguin1'', ''penguin2'', ''penguin3'', ''penguin4'', ''penguin5''],
         penguinHandlers = {}, foundPenguins = [JString ''penguin1'']\<rparr>
        (example_page\<lparr>localStorage := empty_storage\<lparr>accessible := False\<rparr>\<rparr>)))
   \<noteq> [JString ''penguin1'']"
  by (simp add: loadProgress_def loadProgress_try_cases saveProgress_def setItem_def
      empty_storage_def)

text \<open>
  C7, as the code has it. When the storage is accessible and takes the text,
  \<open>saveProgress\<close> followed by \<open>loadProgress\<close> gives back every set of penguin
  identifiers, the empty one too (its text \<open>[]\<close> is not falsy).
\<close>

theorem save_then_load_round_trip:
  assumes "distinct S"
    and "set S \<subseteq> JString ` {''penguin1'', ''penguin2'', ''penguin3'', ''penguin4'', ''penguin5''}"
    and "accessible (localStorage pg)"
    and "length (stringify_array S) \<le> quota (localStorage pg)"
  shows "fst (loadProgress json_fragment (saveProgress json_fragment (t\<lparr>foundPenguins := S\<rparr>) pg)) = S"
proof -
  define ss where "ss = map (\<lambda>v. case v of JString s \<Rightarrow> s | JOther x \<Rightarrow> []) S"
  have "map (\<lambda>v. JString (case v of JString s \<Rightarrow> s | JOther x \<Rightarrow> [])) S = S"
    by (rule map_idI) (use assms(2) in auto)
  then have S: "S = map JString ss"
    by (simp add: ss_def comp_def)
  have five: "\<forall>s \<in> {''penguin1'', ''penguin2'', ''penguin3'', ''penguin4'', ''penguin5''}. plain s"
    by (simp add: plain_def)
  have "set ss \<subseteq> {''penguin1'', ''penguin2'', ''penguin3'', ''penguin4'', ''penguin5''}"
    using assms(2) by (auto simp: ss_def)
  with five have pl: "\<forall>s \<in> set ss. plain s"
    by blast
  have "fragment_parse (stringify_array S) = Some (JOther (Array (map Atom_string ss)))"
    unfolding S using pl by (rule fragment_parse_stringify)
  moreover have "fragment_elements (Array (map Atom_string ss)) = Some S"
    by (simp add: S comp_def)
  moreover have "stringify_array S \<noteq> []"
    by (simp add: stringify_array_def)
  ultimately show ?thesis
    using assms(1,3,4)
      save_then_load [of pg json_fragment "t\<lparr>foundPenguins := S\<rparr>" "Array (map Atom_string ss)"]
    by (simp add: json_fragment_def)
qed

theorem save_then_load_round_trip_witness:
  "fst (loadProgress json_fragment
     (saveProgress json_fragment
        \<lparr>penguinIds = [''penguin1'', ''penguin2'', ''penguin3'', ''penguin4'', ''penguin5''],
         penguinHandlers = {}, foundPenguins = [JString ''penguin4'', JString ''penguin1'']\<rparr>
        example_page)) = [JString ''penguin4'', JString ''penguin1'']
   \<and> fst (loadProgress json_fragment
     (saveProgress json_fragment
        \<lparr>penguinIds = [''penguin1'', ''penguin2'', ''penguin3'', ''penguin4'', ''penguin5''],
         penguinHandlers = {}, foundPenguins = []\<rparr>
        example_page)) = []"
  using save_then_load_round_trip
      [of "[JString ''penguin4'', JString ''penguin1'']" example_page
          "\<lparr>penguinIds = [''penguin1'', ''penguin2'', ''penguin3'', ''penguin4'', ''penguin5''],
            penguinHandlers = {}, foundPenguins = []\<rparr>"]
    save_then_load_round_trip
      [of "[]" example_page
          "\<lparr>penguinIds = [''penguin1'', ''penguin2'', ''penguin3'', ''penguin4'', ''penguin5''],
            penguinHandlers = {}, foundPenguins = []\<rparr>"]
  by (simp add: example_page_fields empty_storage_def stringify_array_def quote_string_def
      escape_char_def)

section \<open>Properties of the intro screen and of a page load\<close>

lemma style_set_fields [simp]:
  "element_ids (style_set e p v pg) = element_ids pg"
  "click_listeners (style_set e p v pg) = click_listeners pg"
  "timeouts (style_set e p v pg) = timeouts pg"
  "localStorage (style_set e p v pg) = localStorage pg"
  by (simp_all add: style_set_def)

lemma classList_remove_fields [simp]:
  "element_ids (classList_remove e c pg) = element_ids pg"
  "click_listeners (classList_remove e c pg) = click_listeners pg"
  "timeouts (classList_remove e c pg) = timeouts pg"
  "localStorage (classList_remove e c pg) = localStorage pg"
  by (simp_all add: classList_remove_def)

lemma makeYesOnlyOption_fields [simp]:
  "click_listeners (snd (makeYesOnlyOption h pg)) = click_listeners pg"
  "timeouts (snd (makeYesOnlyOption h pg)) = timeouts pg"
  "localStorage (snd (makeYesOnlyOption h pg)) = localStorage pg"
  "element_ids (snd (makeYesOnlyOption h pg)) = element_ids pg"
  by (simp_all add: makeYesOnlyOption_def Let_def split: option.splits)

lemma and_then_preserves:
  assumes "Q (snd r)" and "\<And>h pg. Q (h, pg) \<Longrightarrow> Q (snd (f (h, pg)))"
  shows "Q (snd (and_then r f))"
  using assms by (cases r) (auto simp: and_then_def split: option.splits)

lemma handleNo_same_core: "same_core (snd s) (snd (handleNo s))"
  unfolding handleNo_def
  apply (rule and_then_preserves [where Q = "same_core (snd s)"])
   apply (rule and_then_preserves [where Q = "same_core (snd s)"])
    apply (rule and_then_preserves [where Q = "same_core (snd s)"])
     apply (rule and_then_preserves [where Q = "same_core (snd s)"])
      apply (simp add: same_core_def split: prod.splits)
     apply (simp add: same_core_def split: option.splits)
    apply (simp add: same_core_def split: option.splits)
   apply (simp add: same_core_def split: option.splits)
  apply (simp add: same_core_def case_prod_unfold)
  done

lemma handleNo_fields [simp]:
  "click_listeners (snd (snd (handleNo s))) = click_listeners (snd s)"
  "timeouts (snd (snd (handleNo s))) = timeouts (snd s)"
  "localStorage (snd (snd (handleNo s))) = localStorage (snd s)"
  "element_ids (snd (snd (handleNo s))) = element_ids (snd s)"
  using handleNo_same_core [of s] by (simp_all add: same_core_def)

lemma handleYes_fields [simp]:
  "click_listeners (snd (snd (handleYes s))) = click_listeners (snd s)"
  "localStorage (snd (snd (handleYes s))) = localStorage (snd s)"
  "fst ` set (timeouts (snd (snd (handleYes s)))) \<subseteq> insert Activate_callback (fst ` set (timeouts (snd s)))"
  by (cases s; auto simp: handleYes_def Let_def split: option.splits)+

lemma cleared_loadProgress:
  "cleared (localStorage pg) \<Longrightarrow> fst (loadProgress P pg) = []"
  by (auto simp: cleared_def loadProgress_fst)

lemma initPage_fields:
  "cleared (localStorage (document (initPage w)))"
  "trackers (initPage w) = trackers w"
  "window_penguinTracker (initPage w) = window_penguinTracker w"
  by (simp_all add: initPage_def Let_def removeItem_def cleared_def new_IntroHandler_def
      initIntro_def split: prod.splits option.splits)

lemma run_init_fields:
  "trackers (run_init i w) = trackers w"
  "window_penguinTracker (run_init i w) = window_penguinTracker w"
  "before_first_tracker (run_init i w) \<or> i = InitPenguinSystem"
  by (cases i; simp add: run_init_def initPenguinSystem_def initPage_fields before_first_tracker_def)+


lemma before_first_trackerI:
  "trackers w \<noteq> [] \<or> cleared (localStorage (document w))
     \<or> ((\<forall>e. (e, Yes_handler) \<notin> set (click_listeners (document w)))
         \<and> Activate_callback \<notin> fst ` set (timeouts (document w)))
   \<Longrightarrow> before_first_tracker w"
  by (auto simp: before_first_tracker_def)

lemma foldl_run_init:
  "trackers (foldl (\<lambda>w' i. run_init i w') w is) = trackers w"
  "window_penguinTracker (foldl (\<lambda>w' i. run_init i w') w is) = window_penguinTracker w"
  by (induction "is" arbitrary: w) (simp_all add: run_init_fields)

lemma foldl_run_init_inv:
  "before_first_tracker w \<Longrightarrow> before_first_tracker (foldl (\<lambda>w' i. run_init i w') w is)"
proof (induction "is" arbitrary: w)
  case Nil
  then show ?case by simp
next
  case (Cons i "is")
  have "before_first_tracker (run_init i w)"
    using Cons.prems run_init_fields(3) [of i w] by (auto simp: run_init_def initPenguinSystem_def)
  then show ?case using Cons.IH by simp
qed

lemma run_listener_fields:
  "length (trackers (run_listener P e l w)) = length (trackers w)"
  "window_penguinTracker (run_listener P e l w) = window_penguinTracker w"
  by (simp_all add: run_listener_def case_prod_unfold split: listener.splits option.splits)

lemma run_listener_inv:
  assumes "before_first_tracker w"
  shows "before_first_tracker (run_listener P e l w)"
proof (cases "trackers w = []")
  case False
  then have "trackers (run_listener P e l w) \<noteq> []"
    using run_listener_fields(1) [of P e l w] by auto
  then show ?thesis by (simp add: before_first_tracker_def)
next
  case True
  show ?thesis
  proof (cases "(e, l) \<in> set (click_listeners (document w))")
    case False
    then show ?thesis using assms by (simp add: run_listener_def)
  next
    case reg: True
    show ?thesis
    proof (cases l)
      case (Penguin_handler r p)
      then show ?thesis using assms True by (simp add: run_listener_def)
    next
      case Yes_handler
      with reg assms True have cl: "cleared (localStorage (document w))"
        by (auto simp: before_first_tracker_def)
      show ?thesis
      proof (cases "introHandler w")
        case None
        then show ?thesis using assms Yes_handler by (simp add: run_listener_def)
      next
        case (Some h)
        then show ?thesis
          using cl Yes_handler reg
          by (simp add: run_listener_def before_first_tracker_def case_prod_unfold)
      qed
    next
      case No_handler
      show ?thesis
      proof (cases "introHandler w")
        case None
        then show ?thesis using assms No_handler by (simp add: run_listener_def)
      next
        case (Some h)
        then show ?thesis
          using assms No_handler reg True
          by (simp add: run_listener_def before_first_tracker_def case_prod_unfold)
      qed
    qed
  qed
qed

lemma foldl_run_listener:
  "length (trackers (foldl (\<lambda>w' l. run_listener P e l w') w ls)) = length (trackers w)"
  "window_penguinTracker (foldl (\<lambda>w' l. run_listener P e l w') w ls) = window_penguinTracker w"
  by (induction ls arbitrary: w) (simp_all add: run_listener_fields)

lemma foldl_run_listener_inv:
  "before_first_tracker w \<Longrightarrow> before_first_tracker (foldl (\<lambda>w' l. run_listener P e l w') w ls)"
  by (induction ls arbitrary: w) (simp_all add: run_listener_inv)


lemma activatePenguins_fields:
  "trackers (activatePenguins P w) = trackers w @ [fst (new_PenguinTracker P (length (trackers w)) (document w))]"
  "window_penguinTracker (activatePenguins P w) = window_penguinTracker w"
  "penguinTracker (activatePenguins P w) = Some (length (trackers w))"
  by (simp_all add: activatePenguins_def Let_def case_prod_unfold)

lemma revealSecretSection_fields [simp]:
  "click_listeners (revealSecretSection pg) = click_listeners pg"
  "localStorage (revealSecretSection pg) = localStorage pg"
  "fst ` set (timeouts (revealSecretSection pg)) \<subseteq> insert Scroll_into_view (fst ` set (timeouts pg))"
  by (auto simp: revealSecretSection_def)

lemma showCompletionCelebration_fields [simp]:
  "click_listeners (showCompletionCelebration pg) = click_listeners pg"
  "localStorage (showCompletionCelebration pg) = localStorage pg"
  "timeouts (showCompletionCelebration pg) = timeouts pg @ [(Remove_celebration, 1000)]"
  by (simp_all add: showCompletionCelebration_def Let_def)

lemma set_take_drop: "set (take i xs @ drop (Suc i) xs) \<subseteq> set xs"
  using set_take_subset [of i xs] set_drop_subset [of "Suc i" xs] by auto

text \<open>A callback other than the activation makes no tracker and leaves the storage,
  the listeners and the absence of a pending activation as they are.\<close>

lemma run_callback_other:
  assumes "f \<noteq> Activate_callback"
  shows "trackers (run_callback P f w) = trackers w"
    and "window_penguinTracker (run_callback P f w) = window_penguinTracker w"
    and "localStorage (document (run_callback P f w)) = localStorage (document w)"
    and "click_listeners (document (run_callback P f w)) = click_listeners (document w)"
    and "Activate_callback \<notin> fst ` set (timeouts (document w)) \<Longrightarrow>
           Activate_callback \<notin> fst ` set (timeouts (document (run_callback P f w)))"
proof -
  show "trackers (run_callback P f w) = trackers w"
    and "window_penguinTracker (run_callback P f w) = window_penguinTracker w"
    and "localStorage (document (run_callback P f w)) = localStorage (document w)"
    and "click_listeners (document (run_callback P f w)) = click_listeners (document w)"
    using assms by (cases f; simp add: run_callback_def Let_def)+
  assume "Activate_callback \<notin> fst ` set (timeouts (document w))"
  then show "Activate_callback \<notin> fst ` set (timeouts (document (run_callback P f w)))"
    using assms revealSecretSection_fields(3) [of "showCompletionCelebration (document w)"]
    by (cases f) (auto simp: run_callback_def Let_def)
qed

lemma run_callback_window:
  "window_penguinTracker (run_callback P f w) = window_penguinTracker w"
  by (cases f) (simp_all add: run_callback_def Let_def activatePenguins_fields observeElements_def)

lemma run_callback_activate:
  "length (trackers (run_callback P Activate_callback w)) = Suc (length (trackers w))"
  "cleared (localStorage (document w)) \<Longrightarrow>
     foundPenguins (last (trackers (run_callback P Activate_callback w))) = []"
  by (simp_all add: run_callback_def Let_def activatePenguins_fields observeElements_def
      new_PenguinTracker_fields cleared_loadProgress)

subsection \<open>Steps\<close>

lemma step_window: "window_penguinTracker (step P ev w) = window_penguinTracker w"
  by (cases ev)
     (simp_all add: step_def Let_def foldl_run_init foldl_run_listener run_callback_window)

lemma run_window: "window_penguinTracker (run P evs w) = window_penguinTracker w"
  by (induction evs arbitrary: w) (simp_all add: step_window)

lemma step_inv:
  assumes "before_first_tracker w"
  shows "before_first_tracker (step P ev w)"
proof (cases ev)
  case DOMContentLoaded
  have "before_first_tracker (w\<lparr>readyState_loading := False\<rparr>)"
    using assms by (simp add: before_first_tracker_def)
  then show ?thesis
    using assms DOMContentLoaded by (simp add: step_def foldl_run_init_inv)
next
  case (Click e)
  then show ?thesis
    using assms by (simp add: step_def foldl_run_listener_inv)
next
  case (Timeout i)
  show ?thesis
  proof (cases "i < length (timeouts (document w))")
    case False
    then show ?thesis using assms Timeout by (simp add: step_def Let_def)
  next
    case True
    let ?pg = "document w"
    let ?w = "w\<lparr>document := ?pg\<lparr>timeouts := take i (timeouts ?pg) @ drop (Suc i) (timeouts ?pg)\<rparr>\<rparr>"
    let ?f = "fst (timeouts ?pg ! i)"
    have st: "step P ev w = run_callback P ?f ?w"
      using True Timeout by (simp add: step_def Let_def)
    have sub: "fst ` set (timeouts (document ?w)) \<subseteq> fst ` set (timeouts ?pg)"
      using set_take_drop [of i "timeouts ?pg"] by auto
    show ?thesis
    proof (cases "?f = Activate_callback")
      case True
      then have "trackers (run_callback P ?f ?w) \<noteq> []"
        using run_callback_activate(1) [of P ?w] by auto
      then show ?thesis by (simp add: st before_first_tracker_def)
    next
      case False
      show ?thesis
        unfolding st
      proof (rule before_first_trackerI)
        show "trackers (run_callback P ?f ?w) \<noteq> []
            \<or> cleared (localStorage (document (run_callback P ?f ?w)))
            \<or> ((\<forall>e. (e, Yes_handler) \<notin> set (click_listeners (document (run_callback P ?f ?w))))
                \<and> Activate_callback \<notin> fst ` set (timeouts (document (run_callback P ?f ?w))))"
          using assms sub run_callback_other(5) [OF False, of ?w P]
          by (auto simp: run_callback_other(1,3,4) [OF False] before_first_tracker_def)
      qed
    qed
  qed
qed

lemma run_inv: "before_first_tracker w \<Longrightarrow> before_first_tracker (run P evs w)"
  by (induction evs arbitrary: w) (simp_all add: step_inv)

lemma run_append: "run P (evs @ [ev]) w = step P ev (run P evs w)"
  by (induction evs arbitrary: w) simp_all

text \<open>The step that makes the first tracker.\<close>

lemma step_first_tracker:
  assumes "before_first_tracker w" and "trackers w = []" and "trackers (step P ev w) \<noteq> []"
  shows "cleared (localStorage (document w))
       \<and> foundPenguins (last (trackers (step P ev w))) = []
       \<and> length (trackers (step P ev w)) = 1"
proof (cases ev)
  case DOMContentLoaded
  then show ?thesis
    using assms(2,3) by (simp add: step_def foldl_run_init split: if_splits)
next
  case (Click e)
  then show ?thesis
    using assms(2,3) foldl_run_listener(1) [of P e w]
    by (auto simp: step_def split: if_splits)
next
  case (Timeout i)
  show ?thesis
  proof (cases "i < length (timeouts (document w))")
    case False
    then show ?thesis using assms(2,3) Timeout by (simp add: step_def Let_def)
  next
    case True
    let ?pg = "document w"
    let ?w = "w\<lparr>document := ?pg\<lparr>timeouts := take i (timeouts ?pg) @ drop (Suc i) (timeouts ?pg)\<rparr>\<rparr>"
    let ?f = "fst (timeouts ?pg ! i)"
    have st: "step P ev w = run_callback P ?f ?w"
      using True Timeout by (simp add: step_def Let_def)
    have act: "?f = Activate_callback"
    proof (rule ccontr)
      assume "?f \<noteq> Activate_callback"
      then have "trackers (run_callback P ?f ?w) = trackers ?w"
        by (rule run_callback_other(1))
      with assms(2,3) st show False by simp
    qed
    have "?f \<in> fst ` set (timeouts ?pg)"
      using True by (auto intro!: image_eqI [where x = "timeouts ?pg ! i"])
    with act assms(1,2) have cl: "cleared (localStorage ?pg)"
      by (auto simp: before_first_tracker_def)
    then have "cleared (localStorage (document ?w))" by simp
    then have "foundPenguins (last (trackers (run_callback P Activate_callback ?w))) = []"
      by (rule run_callback_activate(2))
    moreover have "length (trackers (run_callback P Activate_callback ?w)) = 1"
      using run_callback_activate(1) [of P ?w] assms(2) by simp
    ultimately show ?thesis
      using cl by (simp add: st act)
  qed
qed

subsection \<open>Loading the scripts\<close>

lemma load_scripts_window: "window_penguinTracker (load_scripts w) = None"
  by (simp add: load_scripts_def penguins_js_def Let_def initPenguinSystem_def)

lemma load_scripts_inv:
  assumes "trackers w = []" and "click_listeners (document w) = []" and "timeouts (document w) = []"
  shows "before_first_tracker (load_scripts w)"
proof (cases "readyState_loading w")
  case True
  then show ?thesis
    using assms
    by (simp add: load_scripts_def penguins_js_def main_js_def Let_def before_first_tracker_def)
next
  case False
  then show ?thesis
    using initPage_fields(1) [of w]
    by (simp add: load_scripts_def penguins_js_def main_js_def Let_def before_first_tracker_def
        initPenguinSystem_def initPage_def case_prod_unfold)
qed


lemma returning_world_fields:
  "trackers returning_world = []"
  "click_listeners (document returning_world) = []"
  "timeouts (document returning_world) = []"
  by (simp_all add: returning_world_def example_world_def example_page_def)

lemma load_scripts_trackers: "trackers (load_scripts w) = trackers w"
  by (simp add: load_scripts_def penguins_js_def main_js_def Let_def initPenguinSystem_def
      initPage_fields)

lemma step_no_timeout_trackers:
  "ev \<noteq> Timeout i \<Longrightarrow> ev = DOMContentLoaded \<or> (\<exists>e. ev = Click e) \<Longrightarrow>
     length (trackers (step P ev w)) = length (trackers w)"
  by (cases ev) (auto simp: step_def foldl_run_init foldl_run_listener)

lemma returning_timeouts:
  "timeouts (document (run P [DOMContentLoaded, Click ''btnYes''] (load_scripts returning_world))) =
     [(Activate_callback, 100)]"
  by (simp add: returning_world_def example_world_def example_page_def load_scripts_def
      penguins_js_def main_js_def Let_def step_def run_init_def initPage_def removeItem_def
      empty_storage_def new_IntroHandler_def initIntro_def getElementById_def
      accepts_pointer_def run_listener_def handleYes_def style_set_def classList_remove_def
      setTimeout_def initPenguinSystem_def)


section \<open>The claims about a page load\<close>

text \<open>
  C9. \<open>initPage\<close> removes the saved progress whatever the storage holds, and it runs
  before anything can make a tracker: on a fresh page (no tracker, no listener, no
  timeout before the scripts run), whatever events follow, the step that makes the first
  tracker finds the storage cleared, so that \<open>loadProgress\<close> gives the empty set and the
  tracker starts with nothing found.
\<close>

theorem first_tracker_loads_cleared_storage:
  assumes "trackers w = []" and "click_listeners (document w) = []"
    and "timeouts (document w) = []"
    and "trackers (run P evs (load_scripts w)) = []"
    and "trackers (step P ev (run P evs (load_scripts w))) \<noteq> []"
  shows "cleared (localStorage (document (initPage w)))
       \<and> cleared (localStorage (document (run P evs (load_scripts w))))
       \<and> fst (loadProgress P (document (run P evs (load_scripts w)))) = []
       \<and> foundPenguins (last (trackers (step P ev (run P evs (load_scripts w))))) = []"
proof -
  have "before_first_tracker (load_scripts w)"
    using assms(1,2,3) by (rule load_scripts_inv)
  then have "before_first_tracker (run P evs (load_scripts w))"
    by (rule run_inv)
  then have "cleared (localStorage (document (run P evs (load_scripts w))))
       \<and> foundPenguins (last (trackers (step P ev (run P evs (load_scripts w))))) = []
       \<and> length (trackers (step P ev (run P evs (load_scripts w)))) = 1"
    using assms(4,5) by (rule step_first_tracker)
  then show ?thesis
    by (simp add: initPage_fields cleared_loadProgress)
qed

theorem first_tracker_loads_cleared_storage_witness:
  "items (localStorage (document returning_world)) ''penguinsFound''
     = Some (stringify_array [JString ''penguin1'', JString ''penguin2''])
   \<and> foundPenguins (last (trackers
        (step json_fragment (Timeout 0)
          (run json_fragment [DOMContentLoaded, Click ''btnYes''] (load_scripts returning_world))))) = []"
proof -
  let ?w = "run json_fragment [DOMContentLoaded, Click ''btnYes''] (load_scripts returning_world)"
  have "length (trackers ?w) = length (trackers returning_world)"
    by (simp add: step_no_timeout_trackers load_scripts_trackers)
  then have none: "trackers ?w = []"
    by (simp add: returning_world_fields)
  have "step json_fragment (Timeout 0) ?w = run_callback json_fragment Activate_callback
          (?w\<lparr>document := (document ?w)\<lparr>timeouts := []\<rparr>\<rparr>)"
    by (simp add: step_def Let_def returning_timeouts del: run.simps)
  then have some: "trackers (step json_fragment (Timeout 0) ?w) \<noteq> []"
    using run_callback_activate(1) [of json_fragment "?w\<lparr>document := (document ?w)\<lparr>timeouts := []\<rparr>\<rparr>"]
    by (auto simp del: run.simps)
  have stored: "items (localStorage (document returning_world)) ''penguinsFound''
     = Some (stringify_array [JString ''penguin1'', JString ''penguin2''])"
    by (simp add: returning_world_def example_world_def empty_storage_def)
  show ?thesis
    using first_tracker_loads_cleared_storage
      [OF returning_world_fields none some] stored
    by simp
qed

text \<open>
  C10. After the scripts are loaded, whatever events follow, \<open>window.penguinTracker\<close>
  is \<open>undefined\<close>: the export copies the binding when it still is \<open>undefined\<close>, and
  \<open>activatePenguins\<close> assigns the binding only. \<open>window.penguinTracker.reset()\<close>
  throws a TypeError and changes nothing.
\<close>

theorem window_penguinTracker_stays_undefined:
  "window_penguinTracker (run P evs (load_scripts w)) = None
   \<and> window_penguinTracker_reset P (run P evs (load_scripts w))
       = (Some TypeError, run P evs (load_scripts w))"
  by (simp add: window_penguinTracker_reset_def run_window load_scripts_window)

theorem window_penguinTracker_stays_undefined_witness:
  "penguinTracker (run json_fragment [DOMContentLoaded, Click ''btnYes'', Timeout 0]
      (load_scripts returning_world)) = Some 0
   \<and> window_penguinTracker (run json_fragment [DOMContentLoaded, Click ''btnYes'', Timeout 0]
      (load_scripts returning_world)) = None"
proof -
  let ?w = "run json_fragment [DOMContentLoaded, Click ''btnYes''] (load_scripts returning_world)"
  have "length (trackers ?w) = length (trackers returning_world)"
    by (simp add: step_no_timeout_trackers load_scripts_trackers)
  then have none: "trackers ?w = []"
    by (simp add: returning_world_fields)
  have st: "step json_fragment (Timeout 0) ?w = run_callback json_fragment Activate_callback
          (?w\<lparr>document := (document ?w)\<lparr>timeouts := []\<rparr>\<rparr>)"
    by (simp add: step_def Let_def returning_timeouts del: run.simps)
  have "run json_fragment [DOMContentLoaded, Click ''btnYes'', Timeout 0] (load_scripts returning_world)
          = step json_fragment (Timeout 0) ?w"
    by simp
  then have "penguinTracker (run json_fragment [DOMContentLoaded, Click ''btnYes'', Timeout 0]
      (load_scripts returning_world)) = Some 0"
    using none by (simp add: st run_callback_def Let_def activatePenguins_fields del: run.simps)
  then show ?thesis
    using window_penguinTracker_stays_undefined
      [of json_fragment "[DOMContentLoaded, Click ''btnYes'', Timeout 0]" returning_world]
    by simp
qed

section \<open>Properties of the intro screen\<close>

subsection \<open>Rounding\<close>

lemma dvd_le_floor:
  fixes d n m :: nat
  assumes "d dvd n" and "n \<le> m"
  shows "n \<le> (m div d) * d"
proof -
  have "n div d \<le> m div d" using assms(2) by (rule div_le_mono)
  then have "(n div d) * d \<le> (m div d) * d" by (rule mult_le_mono1)
  then show ?thesis using assms(1) by simp
qed

lemma is_double_le_floor:
  assumes "is_double n" and "n \<le> m"
  shows "n \<le> (m div 2 ^ (floorlog 2 m - 53)) * 2 ^ (floorlog 2 m - 53)"
proof (cases "floorlog 2 n = floorlog 2 m")
  case True
  then have "2 ^ (floorlog 2 m - 53) dvd n"
    using assms(1) by (simp add: is_double_def)
  then show ?thesis using assms(2) by (rule dvd_le_floor)
next
  case False
  then have lt: "floorlog 2 n < floorlog 2 m"
    using floorlog_mono [OF assms(2), of 2] by simp
  then have m0: "0 < m"
    by (auto simp: floorlog_def split: if_splits)
  let ?B = "(2::nat) ^ (floorlog 2 m - 1)"
  have nB: "n < ?B"
  proof (cases "n = 0")
    case True
    then show ?thesis by simp
  next
    case False
    then have "n < 2 ^ floorlog 2 n"
      using floorlog_bounds [of n 2] by simp
    also have "(2::nat) ^ floorlog 2 n \<le> ?B"
      using lt by (intro power_increasing) simp_all
    finally show ?thesis .
  qed
  have Bm: "?B \<le> m"
    using floorlog_bounds [of m 2] m0 by simp
  have "(2::nat) ^ (floorlog 2 m - 53) dvd ?B"
    by (intro le_imp_power_dvd) simp
  then have "?B \<le> (m div 2 ^ (floorlog 2 m - 53)) * 2 ^ (floorlog 2 m - 53)"
    using Bm by (rule dvd_le_floor)
  with nB show ?thesis by simp
qed

lemma significand_cases:
  "significand m = m div 2 ^ (floorlog 2 m - 53)
   \<or> significand m = m div 2 ^ (floorlog 2 m - 53) + 1"
  by (simp add: significand_def Let_def)

lemma significand_small: "floorlog 2 m - 53 = 0 \<Longrightarrow> significand m = m"
  by (simp add: significand_def Let_def)

lemma round_to_double_ge:
  assumes "is_double n" and "n \<le> m"
  shows "double_le (Finite n) (round_to_double m)"
proof -
  let ?k = "floorlog 2 m - 53"
  have "n \<le> (m div 2 ^ ?k) * 2 ^ ?k"
    using assms by (rule is_double_le_floor)
  also have "(m div 2 ^ ?k) * 2 ^ ?k \<le> significand m * 2 ^ ?k"
    using significand_cases [of m] by (intro mult_le_mono1) auto
  finally have "n \<le> significand m * 2 ^ ?k" .
  then show ?thesis
    by (auto simp: round_to_double_def Let_def double_le_def)
qed

lemma round_to_double_is_double:
  assumes "round_to_double m = Finite r"
  shows "is_double r"
proof -
  let ?k = "floorlog 2 m - 53"
  let ?q = "m div 2 ^ ?k"
  have r: "r = significand m * 2 ^ ?k"
    using assms by (simp add: round_to_double_def Let_def split: if_splits)
  show ?thesis
  proof (cases "?k = 0")
    case True
    then have "r = m" by (simp add: r significand_small)
    with True show ?thesis by (simp add: is_double_def)
  next
    case False
    then have bl: "floorlog 2 m = 53 + ?k" by simp
    then have m0: "0 < m" by (auto simp: floorlog_def split: if_splits)
    have "m < 2 ^ (53 + ?k)"
      using floorlog_bounds [of m 2] m0 bl by simp
    then have "m < 2 ^ 53 * 2 ^ ?k"
      by (simp only: power_add)
    then have "?q < 2 ^ 53"
      by (simp only: less_mult_imp_div_less)
    with significand_cases [of m] have "significand m \<le> 2 ^ 53" by auto
    then have "significand m * 2 ^ ?k \<le> 2 ^ 53 * 2 ^ ?k"
      by (rule mult_le_mono1)
    then have rle: "r \<le> 2 ^ (53 + ?k)"
      by (simp only: r power_add)
    show ?thesis
    proof (cases "r = 2 ^ (53 + ?k)")
      case True
      have "floorlog 2 ((2::nat) ^ (53 + ?k)) = 54 + ?k"
        using floorlog_power [of 1 2 "53 + ?k"] by (simp add: floorlog_def)
      then have "floorlog 2 r = 54 + ?k"
        by (simp only: True)
      then have "floorlog 2 r - 53 = Suc ?k"
        by simp
      moreover have "(2::nat) ^ Suc ?k dvd 2 ^ (53 + ?k)"
        by (intro le_imp_power_dvd) simp
      ultimately show ?thesis
        by (simp only: is_double_def True)
    next
      case False
      with rle have "r < 2 ^ (53 + ?k)" by simp
      then have "floorlog 2 r \<le> 53 + ?k"
        by (intro floorlog_leI) simp_all
      then have "(2::nat) ^ (floorlog 2 r - 53) dvd 2 ^ ?k"
        by (intro le_imp_power_dvd) simp
      then have "(2::nat) ^ (floorlog 2 r - 53) dvd significand m * 2 ^ ?k"
        by (rule dvd_mult)
      then show ?thesis
        by (simp only: is_double_def r)
    qed
  qed
qed


lemma double_add_ge: "valid_double d \<Longrightarrow> double_le d (double_add d (Finite b))"
proof (cases d)
  case (Finite n)
  assume "valid_double d"
  with Finite have "is_double n" by (simp add: valid_double_def)
  then have "double_le (Finite n) (round_to_double (n + b))"
    by (rule round_to_double_ge) simp
  with Finite show ?thesis by simp
next
  case Infinity
  then show ?thesis by (simp add: double_le_def)
qed

lemma double_add_valid: "valid_double (double_add d c)"
proof (cases "double_add d c")
  case (Finite r)
  then show ?thesis
    by (cases d; cases c) (simp_all add: valid_double_def round_to_double_is_double)
next
  case Infinity
  then show ?thesis by (simp add: valid_double_def)
qed

lemma valid_double_1: "valid_double double_1"
proof -
  have "floorlog 2 ((2::nat) ^ 54) = 55"
    using floorlog_power [of 1 2 54] by (simp add: floorlog_def)
  then have "floorlog 2 ((2::nat) ^ 54) - 53 = 2" by simp
  moreover have "(2::nat) ^ 2 dvd 2 ^ 54"
    by (intro le_imp_power_dvd) simp
  ultimately show ?thesis
    by (simp only: valid_double_def double_1_def is_double_def double.case)
qed

lemma double_less_4_10: "double_less double_10 d \<Longrightarrow> double_less double_4 d"
  by (cases d) (simp_all add: double_4_def double_10_def)

lemma handleNo_buttons:
  assumes "btnYes h = Some y" and "btnNo h = Some n"
  shows "fst (handleNo (h, pg)) = None"
    and "yesScale (fst (snd (handleNo (h, pg)))) = double_add (yesScale h) double_0_3"
    and "noClickCount (fst (snd (handleNo (h, pg)))) =
           (if noClickCount h < 2 ^ 53 then noClickCount h + 1 else noClickCount h)"
    and "btnYes (fst (snd (handleNo (h, pg)))) = btnYes h"
    and "btnNo (fst (snd (handleNo (h, pg)))) = btnNo h"
    and "noMessages (fst (snd (handleNo (h, pg)))) = noMessages h"
    and "style (snd (snd (handleNo (h, pg)))) n ''pointerEvents'' =
           (if double_less double_4 (double_add (yesScale h) double_0_3)
            then Some (Css ''none'') else style pg n ''pointerEvents'')"
  using assms
  by (simp_all add: handleNo_def and_then_def makeYesOnlyOption_def style_set_def
      classList_add_def Let_def)


lemma new_IntroHandler_inv:
  assumes "''btnYes'' \<in> element_ids pg" and "''btnNo'' \<in> element_ids pg"
  shows "decline_inv (new_IntroHandler pg)"
  using assms valid_double_1
  by (simp add: decline_inv_def new_IntroHandler_def Let_def getElementById_def
      double_1_def double_4_def)

lemma handleNo_inv:
  assumes "decline_inv s"
  shows "decline_inv (snd (handleNo s))"
proof -
  obtain h pg where s: "s = (h, pg)" by (cases s)
  from assms have b: "btnYes h = Some ''btnYes''" "btnNo h = Some ''btnNo''"
    by (simp_all add: decline_inv_def s)
  show ?thesis
    using assms
    by (simp add: decline_inv_def s handleNo_buttons [OF b] b double_add_valid)
qed

lemma handleNos_inv: "decline_inv s \<Longrightarrow> decline_inv (handleNos k s)"
  by (induction k) (simp_all add: handleNo_inv)

lemma click_No_disabled:
  assumes "decline_inv s" and "double_less double_4 (yesScale (fst s))"
  shows "click_No s = (None, s)"
  using assms by (simp add: click_No_def decline_inv_def accepts_pointer_def)

lemma handleNo_step:
  assumes "decline_inv s"
  shows "fst (handleNo s) = None"
    and "double_le (yesScale (fst s)) (yesScale (fst (snd (handleNo s))))"
    and "0 < noClickCount (fst (snd (handleNo s)))"
    and "noClickCount (fst (snd (handleNo s))) - 1 < length (noMessages (fst (snd (handleNo s))))
         \<or> \<not> noClickCount (fst (snd (handleNo s))) \<le> length (noMessages (fst (snd (handleNo s))))"
proof -
  obtain h pg where s: "s = (h, pg)" by (cases s)
  from assms have b: "btnYes h = Some ''btnYes''" "btnNo h = Some ''btnNo''"
    and v: "valid_double (yesScale h)" and len: "length (noMessages h) = 6"
    by (simp_all add: decline_inv_def s)
  show "fst (handleNo s) = None"
    by (simp add: s handleNo_buttons [OF b])
  show "double_le (yesScale (fst s)) (yesScale (fst (snd (handleNo s))))"
    using double_add_ge [OF v, of 5404319552844595]
    by (simp add: s handleNo_buttons [OF b] double_0_3_def)
  show "0 < noClickCount (fst (snd (handleNo s)))"
    by (simp add: s handleNo_buttons [OF b])
  show "noClickCount (fst (snd (handleNo s))) - 1 < length (noMessages (fst (snd (handleNo s))))
         \<or> \<not> noClickCount (fst (snd (handleNo s))) \<le> length (noMessages (fst (snd (handleNo s))))"
    using len by (auto simp: s handleNo_buttons [OF b])
qed


lemma floorlog_numeral: "floorlog 2 (numeral n) = floorlog 2 (numeral n div 2) + 1"
  by (subst compute_floorlog) simp

lemma floorlog_small: "floorlog 2 (Suc 0) = 1" "floorlog 2 1 = 1" "floorlog 2 0 = 0"
  by (simp_all add: compute_floorlog)

text \<open>The first eleven sums \<open>1 + 0.3 + 0.3 + ...\<close>, as doubles.\<close>

lemma eleven_sums:
  "double_add (Finite 18014398509481984) double_0_3 = Finite 23418718062326580"
  "double_add (Finite 23418718062326580) double_0_3 = Finite 28823037615171176"
  "double_add (Finite 28823037615171176) double_0_3 = Finite 34227357168015772"
  "double_add (Finite 34227357168015772) double_0_3 = Finite 39631676720860368"
  "double_add (Finite 39631676720860368) double_0_3 = Finite 45035996273704960"
  "double_add (Finite 45035996273704960) double_0_3 = Finite 50440315826549552"
  "double_add (Finite 50440315826549552) double_0_3 = Finite 55844635379394144"
  "double_add (Finite 55844635379394144) double_0_3 = Finite 61248954932238736"
  "double_add (Finite 61248954932238736) double_0_3 = Finite 66653274485083328"
  "double_add (Finite 66653274485083328) double_0_3 = Finite 72057594037927920"
  "double_add (Finite 72057594037927920) double_0_3 = Finite 77461913590772512"
  by (simp_all add: double_0_3_def round_to_double_def significand_def Let_def floorlog_numeral
      floorlog_small overflow_threshold_def)

lemma handleNos_yesScale:
  assumes "decline_inv s"
  shows "yesScale (fst (handleNos (Suc k) s)) = double_add (yesScale (fst (handleNos k s))) double_0_3"
proof -
  have inv: "decline_inv (handleNos k s)"
    using assms by (rule handleNos_inv)
  obtain h pg where hk: "handleNos k s = (h, pg)" by (cases "handleNos k s")
  from inv have b: "btnYes h = Some ''btnYes''" "btnNo h = Some ''btnNo''"
    by (simp_all add: decline_inv_def hk)
  show ?thesis
    by (simp add: hk handleNo_buttons [OF b])
qed

lemma handleNos_yesScale_numeral:
  assumes "decline_inv s"
  shows "yesScale (fst (handleNos (numeral n) s)) =
           double_add (yesScale (fst (handleNos (pred_numeral n) s))) double_0_3"
  using handleNos_yesScale [OF assms, of "pred_numeral n"]
  by (simp add: numeral_eq_Suc)

text \<open>
  C8. On a page that has both buttons, however many times \<open>handleNo\<close> has been called:
  the next call returns without an exception; \<open>yesScale\<close> does not decrease; the index
  \<open>noClickCount - 1\<close> is within \<open>noMessages\<close> whenever a message is read; and once
  \<open>yesScale\<close> exceeds 4 (and so when it exceeds 10) a click of the pointer on the No
  button is not delivered and changes nothing.
\<close>

theorem decline_never_throws_and_scale_never_shrinks:
  assumes "''btnYes'' \<in> element_ids pg" and "''btnNo'' \<in> element_ids pg"
  shows "fst (handleNo (handleNos k (new_IntroHandler pg))) = None
       \<and> double_le (yesScale (fst (handleNos k (new_IntroHandler pg))))
            (yesScale (fst (handleNos (Suc k) (new_IntroHandler pg))))
       \<and> 0 < noClickCount (fst (handleNos (Suc k) (new_IntroHandler pg)))
       \<and> (noClickCount (fst (handleNos (Suc k) (new_IntroHandler pg)))
             \<le> length (noMessages (fst (handleNos (Suc k) (new_IntroHandler pg))))
          \<longrightarrow> noClickCount (fst (handleNos (Suc k) (new_IntroHandler pg))) - 1
                < length (noMessages (fst (handleNos (Suc k) (new_IntroHandler pg)))))
       \<and> (double_less double_4 (yesScale (fst (handleNos k (new_IntroHandler pg))))
            \<or> double_less double_10 (yesScale (fst (handleNos k (new_IntroHandler pg))))
          \<longrightarrow> click_No (handleNos k (new_IntroHandler pg)) = (None, handleNos k (new_IntroHandler pg)))"
proof -
  let ?s = "handleNos k (new_IntroHandler pg)"
  have "decline_inv (new_IntroHandler pg)"
    using assms by (rule new_IntroHandler_inv)
  then have inv: "decline_inv ?s"
    by (rule handleNos_inv)
  have "double_less double_4 (yesScale (fst ?s)) \<or> double_less double_10 (yesScale (fst ?s))
          \<longrightarrow> click_No ?s = (None, ?s)"
    using click_No_disabled [OF inv] double_less_4_10 [of "yesScale (fst ?s)"] by blast
  then show ?thesis
    using handleNo_step [OF inv] by auto
qed

theorem decline_never_throws_and_scale_never_shrinks_witness:
  "fst (handleNo (handleNos 20 (new_IntroHandler example_page))) = None
   \<and> double_le (yesScale (fst (handleNos 20 (new_IntroHandler example_page))))
        (yesScale (fst (handleNos 21 (new_IntroHandler example_page))))
   \<and> double_less double_4 (yesScale (fst (handleNos 11 (new_IntroHandler example_page))))
   \<and> click_No (handleNos 11 (new_IntroHandler example_page))
        = (None, handleNos 11 (new_IntroHandler example_page))"
proof -
  let ?s = "new_IntroHandler example_page"
  have y: "''btnYes'' \<in> element_ids example_page" and n: "''btnNo'' \<in> element_ids example_page"
    by (simp_all add: example_page_fields)
  have inv: "decline_inv ?s"
    using y n by (rule new_IntroHandler_inv)
  have start: "yesScale (fst ?s) = Finite 18014398509481984"
    by (simp add: new_IntroHandler_def Let_def double_1_def)
  have "yesScale (fst (handleNos 11 ?s)) = Finite 77461913590772512"
    by (simp add: handleNos_yesScale_numeral [OF inv] handleNos_yesScale [OF inv, of 0] start
        eleven_sums del: handleNos.simps(2))
  then have over: "double_less double_4 (yesScale (fst (handleNos 11 ?s)))"
    by (simp add: double_4_def)
  show ?thesis
    using over
      decline_never_throws_and_scale_never_shrinks [OF y n, of 20]
      decline_never_throws_and_scale_never_shrinks [OF y n, of 11]
    by (simp del: handleNos.simps)
qed

end
